theory Spec2Isabelle
  imports Main "HOL-Library.Sublist"
begin

section \<open>The lite agent of hello-agent: sandbox, tools, output parser, agent loop\<close>

text \<open>
  The development embeds the three JavaScript modules of the package \<^verbatim>\<open>agent-lite\<close>:
  \<^verbatim>\<open>tools/sandbox.js\<close> (the path resolver), \<^verbatim>\<open>tools/index.js\<close> (argument validation and
  tool dispatch) and \<^verbatim>\<open>agent.js\<close> (the model-output parser and the agent loop).

  A JavaScript string is a \<^typ>\<open>string\<close>: one \<^typ>\<open>char\<close> per code unit, so the model covers
  the code units below 256. Paths follow the POSIX flavour of Node's \<^verbatim>\<open>path\<close> module
  (\<^verbatim>\<open>path.sep\<close> is \<^verbatim>\<open>/\<close>). Every \<^verbatim>\<open>throw\<close> of the source is a value of the type
  \<open>error\<close>, one constructor per \<^verbatim>\<open>throw\<close> statement.
\<close>

subsection \<open>Strings\<close>

text \<open>\<^verbatim>\<open>String.prototype.startsWith\<close>, \<^verbatim>\<open>endsWith\<close> and \<^verbatim>\<open>trim\<close>. The white space and
  line terminators of ECMAScript below code unit 256 are TAB, LF, VT, FF, CR, SP and NBSP.\<close>

definition startsWith :: "string \<Rightarrow> string \<Rightarrow> bool" where
  "startsWith s p \<longleftrightarrow> take (length p) s = p"

definition endsWith :: "string \<Rightarrow> string \<Rightarrow> bool" where
  "endsWith s p \<longleftrightarrow> length p \<le> length s \<and> drop (length s - length p) s = p"

definition is_js_space :: "char \<Rightarrow> bool" where
  "is_js_space c \<longleftrightarrow>
     c = CHR 0x09 \<or> c = CHR 0x0A \<or> c = CHR 0x0B \<or> c = CHR 0x0C \<or> c = CHR 0x0D \<or>
     c = CHR 0x20 \<or> c = CHR 0xA0"

definition js_trim :: "string \<Rightarrow> string" where
  "js_trim s = rev (dropWhile is_js_space (rev (dropWhile is_js_space s)))"

text \<open>\<^verbatim>\<open>Array.prototype.join\<close> on an array of strings.\<close>

fun js_join :: "string \<Rightarrow> string list \<Rightarrow> string" where
  "js_join sep [] = []"
| "js_join sep [s] = s"
| "js_join sep (s # t # ss) = s @ sep @ js_join sep (t # ss)"

subsection \<open>Errors\<close>

datatype fs_error = ENOENT | EEXIST | ENOTDIR | EISDIR

text \<open>One constructor per \<^verbatim>\<open>throw\<close> of the source, in the order of the files; the comment
  gives the message. \<open>AdapterFailed\<close> and \<open>FsError\<close> are the rejections of the OpenAI client
  and of \<^verbatim>\<open>node:fs/promises\<close>, which the source lets propagate.\<close>

datatype error =
    PathEscapesSandbox string    \<comment> \<open>\<^verbatim>\<open>Path escapes sandbox: ${userPath}\<close>\<close>
  | NotNonEmptyString string     \<comment> \<open>\<^verbatim>\<open>${field} must be a non-empty string.\<close>\<close>
  | ArgsNotObject                \<comment> \<open>\<^verbatim>\<open>args must be an object.\<close>\<close>
  | ListFilesArgs                \<comment> \<open>\<^verbatim>\<open>list_files does not accept arguments.\<close>\<close>
  | UnknownTool string           \<comment> \<open>\<^verbatim>\<open>Unknown tool: ${name}\<close>\<close>
  | UnhandledTool string         \<comment> \<open>\<^verbatim>\<open>Unhandled tool: ${name}\<close>\<close>
  | FsError fs_error
  | NotJSON                      \<comment> \<open>\<^verbatim>\<open>Invalid model output format (expected JSON).\<close>\<close>
  | NotJSONObject                \<comment> \<open>\<^verbatim>\<open>Invalid model output format (expected JSON object).\<close>\<close>
  | UnknownType                  \<comment> \<open>\<^verbatim>\<open>Invalid model output format (unknown type).\<close>\<close>
  | ToolCallMissingName          \<comment> \<open>\<^verbatim>\<open>Tool call missing name.\<close>\<close>
  | FinalMissingContent          \<comment> \<open>\<^verbatim>\<open>Final response missing content.\<close>\<close>
  | AdapterFailed
  | EmptyModelResponse           \<comment> \<open>\<^verbatim>\<open>Empty model response.\<close>\<close>
  | InputNotNonEmptyString       \<comment> \<open>\<^verbatim>\<open>input must be a non-empty string.\<close>\<close>
  | MissingApiKey                \<comment> \<open>\<^verbatim>\<open>Missing OPENAI_API_KEY in environment.\<close>\<close>
  | MissingModel                 \<comment> \<open>\<^verbatim>\<open>Missing OPENAI_MODEL in environment.\<close>\<close>
  | ExceededMaxIterations        \<comment> \<open>\<^verbatim>\<open>Exceeded max iterations.\<close>\<close>

text \<open>The source throws plain \<^verbatim>\<open>Error\<close> objects; the specification names kinds of error.
  \<open>kind_of\<close> reads the specification's taxonomy off the thrown message.\<close>

datatype error_kind =
    PathEscapeError | InvalidArgumentsError | UnknownToolError | InternalError
  | FilesystemError | MalformedOutputError | AdapterError | InvalidInputError
  | ConfigurationError | MaxIterationsExceeded

fun kind_of :: "error \<Rightarrow> error_kind" where
  "kind_of (PathEscapesSandbox p) = PathEscapeError"
| "kind_of (NotNonEmptyString f) = InvalidArgumentsError"
| "kind_of ArgsNotObject = InvalidArgumentsError"
| "kind_of ListFilesArgs = InvalidArgumentsError"
| "kind_of (UnknownTool n) = UnknownToolError"
| "kind_of (UnhandledTool n) = InternalError"
| "kind_of (FsError e) = FilesystemError"
| "kind_of NotJSON = MalformedOutputError"
| "kind_of NotJSONObject = MalformedOutputError"
| "kind_of UnknownType = MalformedOutputError"
| "kind_of ToolCallMissingName = MalformedOutputError"
| "kind_of FinalMissingContent = MalformedOutputError"
| "kind_of AdapterFailed = AdapterError"
| "kind_of EmptyModelResponse = AdapterError"
| "kind_of InputNotNonEmptyString = InvalidInputError"
| "kind_of MissingApiKey = ConfigurationError"
| "kind_of MissingModel = ConfigurationError"
| "kind_of ExceededMaxIterations = MaxIterationsExceeded"

subsection \<open>Paths (\<^verbatim>\<open>node:path\<close>, POSIX)\<close>

text \<open>\<open>split_sep\<close> is \<^verbatim>\<open>s.split("/")\<close>. \<open>normalize_segs\<close> is the segment walk of Node's
  \<^verbatim>\<open>normalizeString\<close> for an absolute path: empty segments and \<^verbatim>\<open>.\<close> are skipped, \<^verbatim>\<open>..\<close>
  drops the last kept segment and is ignored at the root. The first argument is the stack
  of kept segments, last one first.\<close>

fun split_sep :: "string \<Rightarrow> string list" where
  "split_sep [] = [[]]"
| "split_sep (c # cs) =
     (if c = CHR ''/'' then [] # split_sep cs
      else (case split_sep cs of [] \<Rightarrow> [[c]] | s # ss \<Rightarrow> (c # s) # ss))"

fun normalize_segs :: "string list \<Rightarrow> string list \<Rightarrow> string list" where
  "normalize_segs acc [] = rev acc"
| "normalize_segs acc (s # ss) =
     (if s = [] \<or> s = ''.'' then normalize_segs acc ss
      else if s = ''..'' then normalize_segs (case acc of [] \<Rightarrow> [] | _ # r \<Rightarrow> r) ss
      else normalize_segs (s # acc) ss)"

text \<open>A segment that normalisation keeps: not empty, not \<^verbatim>\<open>.\<close> or \<^verbatim>\<open>..\<close>, and free of
  the separator.\<close>

definition seg_ok :: "string \<Rightarrow> bool" where
  "seg_ok s \<longleftrightarrow> s \<noteq> [] \<and> s \<noteq> ''.'' \<and> s \<noteq> ''..'' \<and> CHR ''/'' \<notin> set s"

definition path_segments :: "string \<Rightarrow> string list" where
  "path_segments p = normalize_segs [] (split_sep p)"

definition absolute_path :: "string list \<Rightarrow> string" where
  "absolute_path segs = ''/'' @ js_join ''/'' segs"

text \<open>\<^verbatim>\<open>path.resolve(base, p)\<close> with an absolute \<open>base\<close>, which is the case at both call
  sites, so that the working directory is never consulted: an empty \<open>p\<close> is skipped, an
  absolute \<open>p\<close> replaces \<open>base\<close>, any other \<open>p\<close> is appended to it, and the result is
  normalised.\<close>

definition path_resolve :: "string \<Rightarrow> string \<Rightarrow> string" where
  "path_resolve base p =
     absolute_path (path_segments
       (if p = [] then base else if hd p = CHR ''/'' then p else base @ ''/'' @ p))"

text \<open>\<^verbatim>\<open>path.dirname\<close> of a normalised absolute path.\<close>

definition path_dirname :: "string \<Rightarrow> string" where
  "path_dirname p = absolute_path (butlast (path_segments p))"

subsection \<open>\<^verbatim>\<open>tools/sandbox.js\<close>\<close>

text \<open>\<open>repoRoot\<close> is the absolute directory four levels above the module, a parameter of
  the model.\<close>

definition SANDBOX_DIR :: "string \<Rightarrow> string" where
  "SANDBOX_DIR repoRoot = path_resolve repoRoot ''sandbox-lite''"

definition resolveSandboxPath :: "string \<Rightarrow> string \<Rightarrow> error + string" where
  "resolveSandboxPath repoRoot userPath =
     (let target = path_resolve (SANDBOX_DIR repoRoot) userPath in
      if target \<noteq> SANDBOX_DIR repoRoot
         \<and> \<not> startsWith target (SANDBOX_DIR repoRoot @ ''/'')
      then Inl (PathEscapesSandbox userPath)
      else Inr target)"

subsection \<open>JSON values and \<^verbatim>\<open>JSON.parse\<close>\<close>

text \<open>\<^verbatim>\<open>JSON.parse\<close> is ECMAScript's, modelled as a lexer followed by a parser over tokens.
  The lexer accepts the JSON white space (space, TAB, LF, CR), the six punctuators, the
  three literal names, numbers and strings with their escapes. An escape \<^verbatim>\<open>\uXXXX\<close>
  above \<^verbatim>\<open>00FF\<close> names a code unit outside \<^typ>\<open>char\<close>: the model rejects the text there,
  where \<^verbatim>\<open>JSON.parse\<close> accepts it. \<open>None\<close> is the \<^verbatim>\<open>SyntaxError\<close>.\<close>

datatype json =
    JNull
  | JBool bool
  | JNumber string
  | JString string
  | JArray "json list"
  | JObject "(string \<times> json) list"

datatype token =
    TLBrace | TRBrace | TLBracket | TRBracket | TColon | TComma
  | TString string | TNumber string | TTrue | TFalse | TNull

definition is_json_ws :: "char \<Rightarrow> bool" where
  "is_json_ws c \<longleftrightarrow> c = CHR 0x20 \<or> c = CHR 0x09 \<or> c = CHR 0x0A \<or> c = CHR 0x0D"

definition is_digit :: "char \<Rightarrow> bool" where
  "is_digit c \<longleftrightarrow> (48::nat) \<le> of_char c \<and> of_char c \<le> (57::nat)"

definition hex_digit :: "char \<Rightarrow> nat option" where
  "hex_digit c =
     (let n = (of_char c :: nat) in
      if 48 \<le> n \<and> n \<le> 57 then Some (n - 48)
      else if 65 \<le> n \<and> n \<le> 70 then Some (n - 55)
      else if 97 \<le> n \<and> n \<le> 102 then Some (n - 87)
      else None)"

definition unicode_escape :: "char \<Rightarrow> char \<Rightarrow> char \<Rightarrow> char \<Rightarrow> char option" where
  "unicode_escape h1 h2 h3 h4 =
     (case (hex_digit h1, hex_digit h2, hex_digit h3, hex_digit h4) of
        (Some a, Some b, Some c, Some d) \<Rightarrow>
          (if a = 0 \<and> b = 0 then Some (char_of (16 * c + d)) else None)
      | _ \<Rightarrow> None)"

definition unescape :: "char \<Rightarrow> char option" where
  "unescape e =
     (if e = CHR 0x22 then Some (CHR 0x22)
      else if e = CHR 0x5C then Some (CHR 0x5C)
      else if e = CHR ''/'' then Some (CHR ''/'')
      else if e = CHR ''b'' then Some (CHR 0x08)
      else if e = CHR ''f'' then Some (CHR 0x0C)
      else if e = CHR ''n'' then Some (CHR 0x0A)
      else if e = CHR ''r'' then Some (CHR 0x0D)
      else if e = CHR ''t'' then Some (CHR 0x09)
      else None)"

fun lex_string :: "string \<Rightarrow> string \<Rightarrow> (string \<times> string) option" where
  "lex_string acc [] = None"
| "lex_string acc (c # cs) =
     (if c = CHR 0x22 then Some (rev acc, cs)
      else if c = CHR 0x5C then
        (case cs of
           [] \<Rightarrow> None
         | e # r \<Rightarrow>
             if e = CHR ''u'' then
               (case r of
                  h1 # h2 # h3 # h4 # r' \<Rightarrow>
                    (case unicode_escape h1 h2 h3 h4 of
                       None \<Rightarrow> None
                     | Some ch \<Rightarrow> lex_string (ch # acc) r')
                | _ \<Rightarrow> None)
             else (case unescape e of None \<Rightarrow> None | Some ch \<Rightarrow> lex_string (ch # acc) r))
      else if (of_char c :: nat) < 32 then None
      else lex_string (c # acc) cs)"

definition lex_fraction :: "string \<Rightarrow> (string \<times> string) option" where
  "lex_fraction s =
     (case s of
        c # r \<Rightarrow>
          if c = CHR ''.'' then
            (if takeWhile is_digit r = [] then None
             else Some (c # takeWhile is_digit r, dropWhile is_digit r))
          else Some ([], s)
      | [] \<Rightarrow> Some ([], s))"

definition lex_exponent :: "string \<Rightarrow> (string \<times> string) option" where
  "lex_exponent s =
     (case s of
        c # r \<Rightarrow>
          if c = CHR ''e'' \<or> c = CHR ''E'' then
            (let (sg, r') = (case r of
                               d # r2 \<Rightarrow> if d = CHR ''+'' \<or> d = CHR ''-'' then ([d], r2) else ([], r)
                             | [] \<Rightarrow> ([], r))
             in if takeWhile is_digit r' = [] then None
                else Some (c # sg @ takeWhile is_digit r', dropWhile is_digit r'))
          else Some ([], s)
      | [] \<Rightarrow> Some ([], s))"

definition lex_number :: "string \<Rightarrow> (string \<times> string) option" where
  "lex_number s =
     (let (sg, s1) = (case s of
                        c # r \<Rightarrow> if c = CHR ''-'' then ([c], r) else ([], s)
                      | [] \<Rightarrow> ([], s));
          ip = takeWhile is_digit s1
      in if ip = [] \<or> (hd ip = CHR ''0'' \<and> 1 < length ip) then None
         else (case lex_fraction (dropWhile is_digit s1) of
                 None \<Rightarrow> None
               | Some (fp, s3) \<Rightarrow>
                   (case lex_exponent s3 of
                      None \<Rightarrow> None
                    | Some (ep, s4) \<Rightarrow> Some (sg @ ip @ fp @ ep, s4))))"

function lex :: "string \<Rightarrow> token list option" where
  "lex [] = Some []"
| "lex (c # cs) =
     (if is_json_ws c then lex cs
      else if c = CHR ''{'' then map_option ((#) TLBrace) (lex cs)
      else if c = CHR ''}'' then map_option ((#) TRBrace) (lex cs)
      else if c = CHR ''['' then map_option ((#) TLBracket) (lex cs)
      else if c = CHR '']'' then map_option ((#) TRBracket) (lex cs)
      else if c = CHR '':'' then map_option ((#) TColon) (lex cs)
      else if c = CHR '','' then map_option ((#) TComma) (lex cs)
      else if c = CHR 0x22 then
        (case lex_string [] cs of
           None \<Rightarrow> None
         | Some (s, r) \<Rightarrow> map_option ((#) (TString s)) (lex r))
      else if c = CHR ''-'' \<or> is_digit c then
        (case lex_number (c # cs) of
           None \<Rightarrow> None
         | Some (n, r) \<Rightarrow> map_option ((#) (TNumber n)) (lex r))
      else if take 4 (c # cs) = ''true'' then map_option ((#) TTrue) (lex (drop 3 cs))
      else if take 5 (c # cs) = ''false'' then map_option ((#) TFalse) (lex (drop 4 cs))
      else if take 4 (c # cs) = ''null'' then map_option ((#) TNull) (lex (drop 3 cs))
      else None)"
  by pat_completeness auto
termination
proof (relation "measure length")
  have str: "length r \<le> length s" if "lex_string acc s = Some (v, r)" for acc s v r
    using that
  proof (induction "length s" arbitrary: acc s rule: less_induct)
    case less
    have IH: "length r \<le> length s"
      if "lex_string acc' s' = Some (v, r)" "length s' < length s" for acc' s'
      using less.hyps[OF that(2) that(1)] that(2) by simp
    show ?case
    proof (cases s)
      case Nil
      then show ?thesis using less.prems by simp
    next
      case (Cons c cs)
      show ?thesis using less.prems unfolding Cons lex_string.simps
        by (auto split: if_splits list.splits option.splits dest!: IH simp: Cons)
    qed
  qed
  have d: "length (dropWhile is_digit x) \<le> length x" for x by (rule length_dropWhile_le)
  have frac: "length r \<le> length s" if "lex_fraction s = Some (v, r)" for s v r
    using that d[of "tl s"] by (auto simp: lex_fraction_def split: list.splits if_splits)
  have expo: "length r \<le> length s" if "lex_exponent s = Some (v, r)" for s v r
    using that d[of "tl s"] d[of "tl (tl s)"]
    by (auto simp: lex_exponent_def Let_def split: list.splits if_splits)
  have drop: "length (dropWhile is_digit x) < length x" if "takeWhile is_digit x \<noteq> []" for x
  proof -
    have "length (takeWhile is_digit x) + length (dropWhile is_digit x) = length x"
      by (metis length_append takeWhile_dropWhile_id)
    then show ?thesis using that by (cases "takeWhile is_digit x") auto
  qed
  have num: "length r < length s" if "lex_number s = Some (v, r)" for s v r
  proof -
    obtain sg s1 where sg: "(case s of c # r \<Rightarrow> if c = CHR ''-'' then ([c], r) else ([], s)
                      | [] \<Rightarrow> ([], s)) = (sg, s1)" by fastforce
    then have s1: "length s1 \<le> length s" by (auto split: list.splits if_splits)
    from that sg obtain fp s3 ep where
      ip: "takeWhile is_digit s1 \<noteq> []" and
      f: "lex_fraction (dropWhile is_digit s1) = Some (fp, s3)" and
      e: "lex_exponent s3 = Some (ep, r)"
      by (auto simp: lex_number_def Let_def split: if_splits option.splits)
    from drop[OF ip] frac[OF f] expo[OF e] s1 show ?thesis by linarith
  qed
  show "wf (measure length)" by simp
  show "\<And>c cs x2 x y. lex_string [] cs = Some x2 \<Longrightarrow> (x, y) = x2 \<Longrightarrow> (y, c # cs) \<in> measure length"
    using str by fastforce
  show "\<And>c cs x2 x y. lex_number (c # cs) = Some x2 \<Longrightarrow> (x, y) = x2 \<Longrightarrow> (y, c # cs) \<in> measure length"
    using num by fastforce
qed auto

text \<open>The grammar over tokens, as a pushdown automaton: the stack holds the arrays and
  objects under construction, innermost first. A duplicate key keeps its first position
  and takes the last value, as \<^verbatim>\<open>JSON.parse\<close> does.\<close>

fun alist_put :: "('k \<times> 'v) list \<Rightarrow> 'k \<Rightarrow> 'v \<Rightarrow> ('k \<times> 'v) list" where
  "alist_put [] k v = [(k, v)]"
| "alist_put ((k', v') # ms) k v = (if k' = k then (k, v) # ms else (k', v') # alist_put ms k v)"

datatype frame = FArray "json list" | FObject "(string \<times> json) list" string

datatype pstate =
    PValue          \<comment> \<open>a value must follow\<close>
  | PValueOrEnd     \<comment> \<open>after \<^verbatim>\<open>[\<close>: a value or \<^verbatim>\<open>]\<close>\<close>
  | PKeyOrEnd       \<comment> \<open>after \<^verbatim>\<open>{\<close>: a key or \<^verbatim>\<open>}\<close>\<close>
  | PKey            \<comment> \<open>after a comma in an object: a key\<close>
  | PColon string   \<comment> \<open>after a key: the colon\<close>
  | PAfter          \<comment> \<open>after a value in an array or object: a comma or the closing bracket\<close>
  | PDone json      \<comment> \<open>the text's value is complete\<close>

fun deliver :: "json \<Rightarrow> frame list \<Rightarrow> pstate \<times> frame list" where
  "deliver v [] = (PDone v, [])"
| "deliver v (FArray xs # st) = (PAfter, FArray (xs @ [v]) # st)"
| "deliver v (FObject ms k # st) = (PAfter, FObject (alist_put ms k v) [] # st)"

fun begin_value :: "token \<Rightarrow> frame list \<Rightarrow> (pstate \<times> frame list) option" where
  "begin_value TLBrace st = Some (PKeyOrEnd, FObject [] [] # st)"
| "begin_value TLBracket st = Some (PValueOrEnd, FArray [] # st)"
| "begin_value (TString s) st = Some (deliver (JString s) st)"
| "begin_value (TNumber n) st = Some (deliver (JNumber n) st)"
| "begin_value TTrue st = Some (deliver (JBool True) st)"
| "begin_value TFalse st = Some (deliver (JBool False) st)"
| "begin_value TNull st = Some (deliver JNull st)"
| "begin_value _ st = None"

fun pstep :: "pstate \<Rightarrow> frame list \<Rightarrow> token \<Rightarrow> (pstate \<times> frame list) option" where
  "pstep PValue st t = begin_value t st"
| "pstep PValueOrEnd (FArray xs # st) TRBracket = Some (deliver (JArray xs) st)"
| "pstep PValueOrEnd st t = begin_value t st"
| "pstep PKeyOrEnd (FObject ms k # st) TRBrace = Some (deliver (JObject ms) st)"
| "pstep PKeyOrEnd st (TString k) = Some (PColon k, st)"
| "pstep PKey st (TString k) = Some (PColon k, st)"
| "pstep (PColon k) (FObject ms k' # st) TColon = Some (PValue, FObject ms k # st)"
| "pstep PAfter (FArray xs # st) TComma = Some (PValue, FArray xs # st)"
| "pstep PAfter (FArray xs # st) TRBracket = Some (deliver (JArray xs) st)"
| "pstep PAfter (FObject ms k # st) TComma = Some (PKey, FObject ms k # st)"
| "pstep PAfter (FObject ms k # st) TRBrace = Some (deliver (JObject ms) st)"
| "pstep _ _ _ = None"

fun parse_tokens :: "pstate \<Rightarrow> frame list \<Rightarrow> token list \<Rightarrow> json option" where
  "parse_tokens (PDone v) st [] = Some v"
| "parse_tokens ps st [] = None"
| "parse_tokens ps st (t # ts) =
     (case pstep ps st t of None \<Rightarrow> None | Some (ps', st') \<Rightarrow> parse_tokens ps' st' ts)"

definition JSON_parse :: "string \<Rightarrow> json option" where
  "JSON_parse text = (case lex text of None \<Rightarrow> None | Some ts \<Rightarrow> parse_tokens PValue [] ts)"

text \<open>What the source asks of a decoded value: truthiness, \<^verbatim>\<open>typeof\<close>, \<^verbatim>\<open>Array.isArray\<close>
  and property reads. A number is kept as its literal; it is falsy when its digits before
  the exponent are all zero (rounding to binary64 is not modelled). \<open>get_prop v k\<close> is
  \<^verbatim>\<open>v[k]\<close> for the property names the source reads (\<^verbatim>\<open>type\<close>, \<^verbatim>\<open>name\<close>, \<^verbatim>\<open>args\<close>,
  \<^verbatim>\<open>content\<close>, \<^verbatim>\<open>filePath\<close>), none of which is inherited: \<open>None\<close> is \<^verbatim>\<open>undefined\<close>.\<close>

definition zero_literal :: "string \<Rightarrow> bool" where
  "zero_literal n \<longleftrightarrow>
     list_all (\<lambda>c. \<not> is_digit c \<or> c = CHR ''0'')
       (takeWhile (\<lambda>c. c \<noteq> CHR ''e'' \<and> c \<noteq> CHR ''E'') n)"

fun js_truthy :: "json \<Rightarrow> bool" where
  "js_truthy JNull = False"
| "js_truthy (JBool b) = b"
| "js_truthy (JNumber n) = (\<not> zero_literal n)"
| "js_truthy (JString s) = (s \<noteq> [])"
| "js_truthy (JArray xs) = True"
| "js_truthy (JObject ms) = True"

fun js_typeof :: "json \<Rightarrow> string" where
  "js_typeof JNull = ''object''"
| "js_typeof (JBool b) = ''boolean''"
| "js_typeof (JNumber n) = ''number''"
| "js_typeof (JString s) = ''string''"
| "js_typeof (JArray xs) = ''object''"
| "js_typeof (JObject ms) = ''object''"

fun isArray :: "json \<Rightarrow> bool" where
  "isArray (JArray xs) = True"
| "isArray _ = False"

fun get_prop :: "json \<Rightarrow> string \<Rightarrow> json option" where
  "get_prop (JObject ms) k = map_of ms k"
| "get_prop _ k = None"

fun set_prop :: "json \<Rightarrow> string \<Rightarrow> json \<Rightarrow> json" where
  "set_prop (JObject ms) k v = JObject (alist_put ms k v)"
| "set_prop j k v = j"

text \<open>\<^verbatim>\<open>typeof x !== "string" || x.trim().length === 0\<close>, on the result of a property read.\<close>

fun blank_or_not_string :: "json option \<Rightarrow> bool" where
  "blank_or_not_string (Some (JString s)) = (length (js_trim s) = 0)"
| "blank_or_not_string _ = True"

subsection \<open>\<^verbatim>\<open>agent.js\<close>: the model-output parser\<close>

text \<open>\<open>replace_json_fence\<close> is \<^verbatim>\<open>text.replace(/^```json/i, "```")\<close>: the flag \<^verbatim>\<open>i\<close> makes the
  four letters match in either case. \<open>strip_fence\<close> is \<^verbatim>\<open>text.replace(/^```/, "")\<close>.\<close>

definition ascii_lower :: "char \<Rightarrow> char" where
  "ascii_lower c =
     (if (65::nat) \<le> of_char c \<and> of_char c \<le> (90::nat) then char_of (of_char c + (32::nat)) else c)"

definition replace_json_fence :: "string \<Rightarrow> string" where
  "replace_json_fence text =
     (if take 3 text = ''```'' \<and> map ascii_lower (take 4 (drop 3 text)) = ''json''
      then ''```'' @ drop 7 text else text)"

definition strip_fence :: "string \<Rightarrow> string" where
  "strip_fence text = (if take 3 text = ''```'' then drop 3 text else text)"

definition normalizeModelOutput :: "string \<Rightarrow> string" where
  "normalizeModelOutput content =
     (let text = js_trim content in
      if startsWith text ''```'' then
        (let text1 = replace_json_fence text;
             text2 = strip_fence text1;
             text3 = (if endsWith text2 ''```'' then take (length text2 - 3) text2 else text2)
         in js_trim text3)
      else text)"

definition parseModelOutput :: "string \<Rightarrow> error + json" where
  "parseModelOutput content =
     (case JSON_parse (normalizeModelOutput content) of
        None \<Rightarrow> Inl NotJSON
      | Some payload \<Rightarrow>
          if \<not> js_truthy payload \<or> js_typeof payload \<noteq> ''object'' \<or> isArray payload
          then Inl NotJSONObject
          else if get_prop payload ''type'' \<noteq> Some (JString ''tool'')
                  \<and> get_prop payload ''type'' \<noteq> Some (JString ''final'')
          then Inl UnknownType
          else if get_prop payload ''type'' = Some (JString ''tool'') then
            (if blank_or_not_string (get_prop payload ''name'') then Inl ToolCallMissingName
             else if get_prop payload ''args'' = None \<or> get_prop payload ''args'' = Some JNull
             then Inr (set_prop payload ''args'' (JObject []))
             else Inr payload)
          else
            (if (case get_prop payload ''content'' of Some (JString c) \<Rightarrow> False | _ \<Rightarrow> True)
             then Inl FinalMissingContent
             else Inr payload))"

text \<open>\<^verbatim>\<open>JSON.stringify\<close>. A string is quoted as ECMAScript's \<^verbatim>\<open>QuoteJSONString\<close> does; a
  number is printed as its literal.\<close>

definition hex_char :: "nat \<Rightarrow> char" where
  "hex_char n = (if n < 10 then char_of (48 + n) else char_of (87 + n))"

definition quote_char :: "char \<Rightarrow> string" where
  "quote_char c =
     (if c = CHR 0x22 then [CHR 0x5C, CHR 0x22]
      else if c = CHR 0x5C then [CHR 0x5C, CHR 0x5C]
      else if c = CHR 0x08 then [CHR 0x5C, CHR ''b'']
      else if c = CHR 0x0C then [CHR 0x5C, CHR ''f'']
      else if c = CHR 0x0A then [CHR 0x5C, CHR ''n'']
      else if c = CHR 0x0D then [CHR 0x5C, CHR ''r'']
      else if c = CHR 0x09 then [CHR 0x5C, CHR ''t'']
      else if (of_char c :: nat) < 32
        then [CHR 0x5C, CHR ''u'', CHR ''0'', CHR ''0'',
              hex_char (of_char c div 16), hex_char (of_char c mod 16)]
      else [c])"

definition JSON_quote :: "string \<Rightarrow> string" where
  "JSON_quote s = [CHR 0x22] @ concat (map quote_char s) @ [CHR 0x22]"

fun JSON_stringify :: "json \<Rightarrow> string" where
  "JSON_stringify JNull = ''null''"
| "JSON_stringify (JBool b) = (if b then ''true'' else ''false'')"
| "JSON_stringify (JNumber n) = n"
| "JSON_stringify (JString s) = JSON_quote s"
| "JSON_stringify (JArray xs) = ''['' @ js_join '','' (map JSON_stringify xs) @ '']''"
| "JSON_stringify (JObject ms) =
     ''{'' @ js_join '','' (map (\<lambda>m. JSON_quote (fst m) @ '':'' @ JSON_stringify (snd m)) ms) @ ''}''"

subsection \<open>The file system (\<^verbatim>\<open>node:fs/promises\<close>)\<close>

text \<open>The file system is a table from a path, as its list of segments, to a node, in
  the order of creation; the root directory \<open>[]\<close> always exists. Symbolic links and
  permissions are not modelled, and a path that runs through a file is reported as
  missing (\<open>ENOENT\<close>) by the reading operations. \<open>oplog\<close> records every call the program makes to the file
  system, in order: it is what "no file system operation was performed" is stated on.\<close>

datatype node = File string | Dir

datatype fs_op =
    OpMkdir string | OpReaddir string | OpReadFile string | OpWriteFile string string

record world =
  files :: "(string list \<times> node) list"
  oplog :: "fs_op list"

definition node_at :: "(string list \<times> node) list \<Rightarrow> string list \<Rightarrow> node option" where
  "node_at fs p = (if p = [] then Some Dir else map_of fs p)"

text \<open>\<^verbatim>\<open>fs.mkdir(path, { recursive: true })\<close>: every missing directory on the way is created;
  a file on the way is an error, and the directories created before it stay.\<close>

fun mkdir_walk ::
  "(string list \<times> node) list \<Rightarrow> string list \<Rightarrow> string list
     \<Rightarrow> fs_error option \<times> (string list \<times> node) list" where
  "mkdir_walk fs pre [] = (None, fs)"
| "mkdir_walk fs pre (s # ss) =
     (case node_at fs (pre @ [s]) of
        Some (File c) \<Rightarrow> (Some (if ss = [] then EEXIST else ENOTDIR), fs)
      | Some Dir \<Rightarrow> mkdir_walk fs (pre @ [s]) ss
      | None \<Rightarrow> mkdir_walk (fs @ [(pre @ [s], Dir)]) (pre @ [s]) ss)"

definition fs_mkdir :: "string \<Rightarrow> world \<Rightarrow> (fs_error + unit) \<times> world" where
  "fs_mkdir path w =
     (case mkdir_walk (files w) [] (path_segments path) of
        (None, fs') \<Rightarrow> (Inr (), w\<lparr>files := fs', oplog := oplog w @ [OpMkdir path]\<rparr>)
      | (Some e, fs') \<Rightarrow> (Inl e, w\<lparr>files := fs', oplog := oplog w @ [OpMkdir path]\<rparr>))"

text \<open>\<^verbatim>\<open>fs.readdir\<close>: the names of the entries directly under the directory.\<close>

definition entry_names :: "(string list \<times> node) list \<Rightarrow> string list \<Rightarrow> string list" where
  "entry_names fs d = remdups (map last (filter (\<lambda>q. q \<noteq> [] \<and> butlast q = d) (map fst fs)))"

definition fs_readdir :: "string \<Rightarrow> world \<Rightarrow> (fs_error + string list) \<times> world" where
  "fs_readdir path w =
     (let w' = w\<lparr>oplog := oplog w @ [OpReaddir path]\<rparr> in
      case node_at (files w) (path_segments path) of
        Some Dir \<Rightarrow> (Inr (entry_names (files w) (path_segments path)), w')
      | Some (File c) \<Rightarrow> (Inl ENOTDIR, w')
      | None \<Rightarrow> (Inl ENOENT, w'))"

definition fs_readFile :: "string \<Rightarrow> world \<Rightarrow> (fs_error + string) \<times> world" where
  "fs_readFile path w =
     (let w' = w\<lparr>oplog := oplog w @ [OpReadFile path]\<rparr> in
      case node_at (files w) (path_segments path) of
        Some (File c) \<Rightarrow> (Inr c, w')
      | Some Dir \<Rightarrow> (Inl EISDIR, w')
      | None \<Rightarrow> (Inl ENOENT, w'))"

definition fs_writeFile :: "string \<Rightarrow> string \<Rightarrow> world \<Rightarrow> (fs_error + unit) \<times> world" where
  "fs_writeFile path data w =
     (let w' = w\<lparr>oplog := oplog w @ [OpWriteFile path data]\<rparr> in
      case node_at (files w) (path_segments path) of
        Some Dir \<Rightarrow> (Inl EISDIR, w')
      | _ \<Rightarrow>
        (case node_at (files w) (butlast (path_segments path)) of
           Some Dir \<Rightarrow>
             (Inr (), w'\<lparr>files := alist_put (files w) (path_segments path) (File data)\<rparr>)
         | Some (File c) \<Rightarrow> (Inl ENOTDIR, w')
         | None \<Rightarrow> (Inl ENOENT, w')))"

subsection \<open>\<^verbatim>\<open>tools/sandbox.js\<close> and \<^verbatim>\<open>tools/index.js\<close>\<close>

definition ensureSandbox :: "string \<Rightarrow> world \<Rightarrow> (fs_error + unit) \<times> world" where
  "ensureSandbox repoRoot w = fs_mkdir (SANDBOX_DIR repoRoot) w"

record tool_definition =
  tool_name :: string
  tool_description :: string
  tool_schema :: json

definition TOOL_DEFINITIONS :: "tool_definition list" where
  "TOOL_DEFINITIONS =
     [\<lparr>tool_name = ''list_files'',
       tool_description = ''List top-level files in sandbox-lite.'',
       tool_schema = JObject [(''type'', JString ''object''), (''properties'', JObject []),
                              (''additionalProperties'', JBool False)]\<rparr>,
      \<lparr>tool_name = ''read_file'',
       tool_description = ''Read a file under sandbox-lite. Provide a relative filePath.'',
       tool_schema = JObject [(''type'', JString ''object''),
                              (''properties'',
                                 JObject [(''filePath'', JObject [(''type'', JString ''string'')])]),
                              (''required'', JArray [JString ''filePath'']),
                              (''additionalProperties'', JBool False)]\<rparr>,
      \<lparr>tool_name = ''write_file'',
       tool_description =
         ''Write a file under sandbox-lite. Provide relative filePath and content.'',
       tool_schema = JObject [(''type'', JString ''object''),
                              (''properties'',
                                 JObject [(''filePath'', JObject [(''type'', JString ''string'')]),
                                          (''content'', JObject [(''type'', JString ''string'')])]),
                              (''required'', JArray [JString ''filePath'', JString ''content'']),
                              (''additionalProperties'', JBool False)]\<rparr>]"

definition TOOL_NAMES :: "string set" where
  "TOOL_NAMES = set (map tool_name TOOL_DEFINITIONS)"

definition getToolDefinitions :: "tool_definition list" where
  "getToolDefinitions = TOOL_DEFINITIONS"

definition assertNonEmptyString :: "json option \<Rightarrow> string \<Rightarrow> error + unit" where
  "assertNonEmptyString v field =
     (if blank_or_not_string v then Inl (NotNonEmptyString field) else Inr ())"

text \<open>\<^verbatim>\<open>Object.keys\<close> of a decoded object.\<close>

fun object_keys :: "json \<Rightarrow> string list" where
  "object_keys (JObject ms) = map fst ms"
| "object_keys _ = []"

definition validateArgs :: "string \<Rightarrow> json \<Rightarrow> error + unit" where
  "validateArgs name args =
     (if args = JNull \<or> js_typeof args \<noteq> ''object'' \<or> isArray args then Inl ArgsNotObject
      else if name = ''list_files'' then
        (if 0 < length (object_keys args) then Inl ListFilesArgs else Inr ())
      else if name = ''read_file'' then assertNonEmptyString (get_prop args ''filePath'') ''filePath''
      else if name = ''write_file'' then
        (case assertNonEmptyString (get_prop args ''filePath'') ''filePath'' of
           Inl e \<Rightarrow> Inl e
         | Inr u \<Rightarrow> assertNonEmptyString (get_prop args ''content'') ''content'')
      else Inr ())"

text \<open>The string held by a property that has been checked to be a string (by
  \<open>validateArgs\<close> or by \<open>parseModelOutput\<close>) before it is read.\<close>

fun js_string :: "json option \<Rightarrow> string" where
  "js_string (Some (JString s)) = s"
| "js_string _ = []"

definition runTool :: "string \<Rightarrow> string \<Rightarrow> json \<Rightarrow> world \<Rightarrow> (error + string) \<times> world" where
  "runTool repoRoot name args w =
     (if name \<notin> TOOL_NAMES then (Inl (UnknownTool name), w)
      else
        (case validateArgs name args of
           Inl e \<Rightarrow> (Inl e, w)
         | Inr u \<Rightarrow>
           (case ensureSandbox repoRoot w of
              (Inl e, w1) \<Rightarrow> (Inl (FsError e), w1)
            | (Inr u1, w1) \<Rightarrow>
                if name = ''list_files'' then
                  (case fs_readdir (SANDBOX_DIR repoRoot) w1 of
                     (Inl e, w2) \<Rightarrow> (Inl (FsError e), w2)
                   | (Inr names, w2) \<Rightarrow>
                       (Inr (if 0 < length names then js_join [CHR 0x0A] names else ''(empty)''), w2))
                else if name = ''read_file'' then
                  (case resolveSandboxPath repoRoot (js_string (get_prop args ''filePath'')) of
                     Inl e \<Rightarrow> (Inl e, w1)
                   | Inr target \<Rightarrow>
                       (case fs_readFile target w1 of
                          (Inl e, w2) \<Rightarrow> (Inl (FsError e), w2)
                        | (Inr text, w2) \<Rightarrow> (Inr text, w2)))
                else if name = ''write_file'' then
                  (case resolveSandboxPath repoRoot (js_string (get_prop args ''filePath'')) of
                     Inl e \<Rightarrow> (Inl e, w1)
                   | Inr target \<Rightarrow>
                       (case fs_mkdir (path_dirname target) w1 of
                          (Inl e, w2) \<Rightarrow> (Inl (FsError e), w2)
                        | (Inr u2, w2) \<Rightarrow>
                            (case fs_writeFile target (js_string (get_prop args ''content'')) w2 of
                               (Inl e, w3) \<Rightarrow> (Inl (FsError e), w3)
                             | (Inr u3, w3) \<Rightarrow>
                                 (Inr (''Wrote '' @ js_string (get_prop args ''filePath'')), w3))))
                else (Inl (UnhandledTool name), w1))))"

subsection \<open>\<^verbatim>\<open>agent.js\<close>: the agent loop\<close>

datatype role = System | User | Assistant

record message =
  msg_role :: role
  msg_content :: string

datatype step = ToolStep string json string | FinalStep string

record result =
  result_output :: string
  result_steps :: "step list option"

text \<open>The OpenAI client is outside the program. An adapter maps the number of completed
  calls and the message sequence it is sent to its reply: a rejection (network or API
  error), or a response whose first choice carries a content or none.\<close>

datatype llm_reply = Rejected | Reply "string option"

type_synonym adapter = "nat \<Rightarrow> message list \<Rightarrow> llm_reply"

text \<open>The state of one invocation: the local variables \<^verbatim>\<open>messages\<close> and \<^verbatim>\<open>steps\<close>, the file
  system, and two counters of the calls made so far to the model and to \<open>runTool\<close>.\<close>

record agent_state =
  messages :: "message list"
  steps :: "step list"
  disk :: world
  model_calls :: nat
  tool_calls :: nat

definition DEFAULT_MAX_ITERATIONS :: int where
  "DEFAULT_MAX_ITERATIONS = 6"

definition buildSystemPrompt :: "tool_definition list \<Rightarrow> string" where
  \<open>buildSystemPrompt tools =
     (let toolLines =
            js_join [CHR 0x0A]
              (map (\<lambda>tool. ''- '' @ tool_name tool @ '': '' @ tool_description tool
                            @ [CHR 0x0A] @ ''  schema: '' @ JSON_stringify (tool_schema tool))
                   tools)
      in js_join [CHR 0x0A]
           [''You are a tool-using agent.'',
            ''You must respond with valid JSON only.'',
            ''Use exactly one of the following JSON shapes:'',
            ''{ "type": "tool", "name": "tool_name", "args": { ... } }'',
            ''{ "type": "final", "content": "your answer" }'',
            ''If a tool is needed, respond with type=tool.'',
            ''When you are done, respond with type=final.'',
            ''Do not wrap JSON in markdown fences.'',
            ''Available tools:'',
            toolLines])\<close>

definition callModel :: "adapter \<Rightarrow> agent_state \<Rightarrow> (error + string) \<times> agent_state" where
  "callModel llm st =
     (let st' = st\<lparr>model_calls := Suc (model_calls st)\<rparr> in
      case llm (model_calls st) (messages st) of
        Rejected \<Rightarrow> (Inl AdapterFailed, st')
      | Reply None \<Rightarrow> (Inl EmptyModelResponse, st')
      | Reply (Some choice) \<Rightarrow>
          if choice = [] then (Inl EmptyModelResponse, st') else (Inr choice, st'))"

text \<open>\<^verbatim>\<open>action.args || {}\<close>.\<close>

fun args_or_empty :: "json option \<Rightarrow> json" where
  "args_or_empty None = JObject []"
| "args_or_empty (Some v) = (if js_truthy v then v else JObject [])"

text \<open>One pass through the body of the \<^verbatim>\<open>for\<close> loop: it returns from the function, throws,
  or falls through to the next iteration.\<close>

datatype pass = Finished "error + string" agent_state | Next agent_state

definition loop_body :: "string \<Rightarrow> adapter \<Rightarrow> agent_state \<Rightarrow> pass" where
  "loop_body repoRoot llm st =
     (case callModel llm st of
        (Inl e, st1) \<Rightarrow> Finished (Inl e) st1
      | (Inr text, st1) \<Rightarrow>
          (case parseModelOutput text of
             Inl e \<Rightarrow> Finished (Inl e) st1
           | Inr action \<Rightarrow>
               (let st2 = st1\<lparr>messages :=
                                 messages st1 @ [\<lparr>msg_role = Assistant, msg_content = text\<rparr>]\<rparr>
                in if get_prop action ''type'' = Some (JString ''final'') then
                     Finished (Inr (js_string (get_prop action ''content'')))
                       (st2\<lparr>steps := steps st2
                                       @ [FinalStep (js_string (get_prop action ''content''))]\<rparr>)
                   else
                     (case runTool repoRoot (js_string (get_prop action ''name''))
                             (args_or_empty (get_prop action ''args'')) (disk st2) of
                        (Inl e, w) \<Rightarrow>
                          Finished (Inl e) (st2\<lparr>disk := w, tool_calls := Suc (tool_calls st2)\<rparr>)
                      | (Inr res, w) \<Rightarrow>
                          Next (st2\<lparr>disk := w, tool_calls := Suc (tool_calls st2),
                                     steps := steps st2
                                       @ [ToolStep (js_string (get_prop action ''name''))
                                            (args_or_empty (get_prop action ''args'')) res],
                                     messages := messages st2
                                       @ [\<lparr>msg_role = User,
                                           msg_content =
                                             JSON_stringify
                                               (JObject
                                                  [(''type'', JString ''observation''),
                                                   (''name'', JString (js_string (get_prop action ''name''))),
                                                   (''result'', JString res)])\<rparr>]\<rparr>)))))"

function agent_loop ::
  "string \<Rightarrow> adapter \<Rightarrow> int \<Rightarrow> int \<Rightarrow> agent_state \<Rightarrow> (error + string) \<times> agent_state" where
  "agent_loop repoRoot llm maxIterations iteration st =
     (if iteration < maxIterations then
        (case loop_body repoRoot llm st of
           Finished r st' \<Rightarrow> (r, st')
         | Next st' \<Rightarrow> agent_loop repoRoot llm maxIterations (iteration + 1) st')
      else (Inl ExceededMaxIterations, st))"
  by pat_completeness auto
termination
  by (relation "measure (\<lambda>(repoRoot, llm, maxIterations, iteration, st). nat (maxIterations - iteration))")
     auto

text \<open>The environment variables the function reads.\<close>

record environment =
  OPENAI_API_KEY :: "string option"
  OPENAI_LITE_MODEL :: "string option"
  OPENAI_MODEL :: "string option"
  OPENAI_LITE_BASE_URL :: "string option"

text \<open>\<^verbatim>\<open>a || b\<close> and \<^verbatim>\<open>!a\<close> on environment variables, which are strings or undefined.\<close>

definition env_or :: "string option \<Rightarrow> string option \<Rightarrow> string option" where
  "env_or a b = (case a of Some s \<Rightarrow> if s = [] then b else a | None \<Rightarrow> b)"

definition env_missing :: "string option \<Rightarrow> bool" where
  "env_missing a \<longleftrightarrow> (case a of Some s \<Rightarrow> s = [] | None \<Rightarrow> True)"

text \<open>\<open>runLiteAgent\<close>. The parameters \<open>input\<close>, \<open>includeSteps\<close> and \<open>maxIterations\<close> are
  the fields of the argument object; \<open>None\<close> is a field left out, which takes its default.
  The state returned with an error raised before the loop is the state of an invocation
  that has done nothing.\<close>

definition initial_state :: "world \<Rightarrow> message list \<Rightarrow> agent_state" where
  "initial_state w ms = \<lparr>messages = ms, steps = [], disk = w, model_calls = 0, tool_calls = 0\<rparr>"

definition runLiteAgent ::
  "string \<Rightarrow> environment \<Rightarrow> adapter \<Rightarrow> world \<Rightarrow> json option \<Rightarrow> json option \<Rightarrow> int option
     \<Rightarrow> (error + result) \<times> agent_state" where
  "runLiteAgent repoRoot env llm w input includeSteps maxIterations =
     (if blank_or_not_string input then (Inl InputNotNonEmptyString, initial_state w [])
      else if env_missing (OPENAI_API_KEY env) then (Inl MissingApiKey, initial_state w [])
      else if env_missing (env_or (OPENAI_LITE_MODEL env) (OPENAI_MODEL env))
        then (Inl MissingModel, initial_state w [])
      else
        (case agent_loop repoRoot llm
                (case maxIterations of None \<Rightarrow> DEFAULT_MAX_ITERATIONS | Some n \<Rightarrow> n) 0
                (initial_state w
                   [\<lparr>msg_role = System, msg_content = buildSystemPrompt getToolDefinitions\<rparr>,
                    \<lparr>msg_role = User, msg_content = js_string input\<rparr>]) of
           (Inl e, st) \<Rightarrow> (Inl e, st)
         | (Inr out, st) \<Rightarrow>
             (Inr \<lparr>result_output = out,
                   result_steps =
                     (if (case includeSteps of None \<Rightarrow> False | Some v \<Rightarrow> js_truthy v)
                      then Some (steps st) else None)\<rparr>, st)))"

subsection \<open>Notions used in the statements\<close>

text \<open>The two shapes of an action, as the loop reads them: a tool call has a name that is
  not blank and arguments that are present and not null; a final answer has a string
  content. \<open>json_tag\<close> holds of the language tags that \<open>replace_json_fence\<close> removes.\<close>

definition is_tool_action :: "json \<Rightarrow> bool" where
  "is_tool_action a \<longleftrightarrow>
     get_prop a ''type'' = Some (JString ''tool'')
     \<and> \<not> blank_or_not_string (get_prop a ''name'')
     \<and> get_prop a ''args'' \<noteq> None \<and> get_prop a ''args'' \<noteq> Some JNull"

definition is_final_action :: "json \<Rightarrow> bool" where
  "is_final_action a \<longleftrightarrow>
     get_prop a ''type'' = Some (JString ''final'')
     \<and> (case get_prop a ''content'' of Some (JString c) \<Rightarrow> True | _ \<Rightarrow> False)"


text \<open>Every directory on the way from \<open>pre\<close> down to \<open>pre @ ss\<close> exists.\<close>

definition dirs_exist :: "(string list \<times> node) list \<Rightarrow> string list \<Rightarrow> string list \<Rightarrow> bool" where
  "dirs_exist fs pre ss \<longleftrightarrow> (\<forall>k. 0 < k \<and> k \<le> length ss \<longrightarrow> node_at fs (pre @ take k ss) = Some Dir)"



text \<open>The state a pass ends in, and \<open>n\<close> passes in a row from a state: the first pass that
  returns or throws ends the run.\<close>

fun pass_state :: "pass \<Rightarrow> agent_state" where
  "pass_state (Finished r st) = st"
| "pass_state (Next st) = st"

fun passes :: "string \<Rightarrow> adapter \<Rightarrow> nat \<Rightarrow> agent_state \<Rightarrow> pass" where
  "passes rr llm 0 st = Next st"
| "passes rr llm (Suc n) st =
     (case loop_body rr llm st of
        Finished r st' \<Rightarrow> Finished r st'
      | Next st' \<Rightarrow> passes rr llm n st')"

declare agent_loop.simps [simp del]

section \<open>Verified properties\<close>

subsection \<open>Paths and the sandbox resolver\<close>

lemma split_sep_nonempty: "split_sep s \<noteq> []"
  by (induction s) (auto split: list.splits)

lemma split_sep_no_sep: "x \<in> set (split_sep s) \<Longrightarrow> CHR ''/'' \<notin> set x"
  by (induction s arbitrary: x) (auto split: list.splits if_splits)

lemma split_sep_append: "split_sep (a @ CHR ''/'' # b) = split_sep a @ split_sep b"
  by (induction a) (auto split: list.splits simp: split_sep_nonempty)

lemma split_sep_plain: "CHR ''/'' \<notin> set s \<Longrightarrow> split_sep s = [s]"
  by (induction s) auto

lemma normalize_segs_append:
  "normalize_segs acc (xs @ ys) = normalize_segs (rev (normalize_segs acc xs)) ys"
  by (induction acc xs rule: normalize_segs.induct) auto

lemma normalize_segs_keep:
  "seg_ok s \<Longrightarrow> normalize_segs acc (s # ss) = normalize_segs (s # acc) ss"
  by (simp add: seg_ok_def)

lemma seg_okI: "s \<noteq> [] \<Longrightarrow> s \<noteq> ''.'' \<Longrightarrow> s \<noteq> ''..'' \<Longrightarrow> CHR ''/'' \<notin> set s \<Longrightarrow> seg_ok s"
  by (simp add: seg_ok_def)
lemma normalize_segs_ok:
  "\<forall>x \<in> set acc. seg_ok x \<Longrightarrow> \<forall>x \<in> set ss. CHR ''/'' \<notin> set x \<Longrightarrow>
   \<forall>x \<in> set (normalize_segs acc ss). seg_ok x"
proof (induction acc ss rule: normalize_segs.induct)
  case (1 acc)
  then show ?case by simp
next
  case (2 acc s ss)
  have ss: "\<forall>x \<in> set ss. CHR ''/'' \<notin> set x" and s: "CHR ''/'' \<notin> set s"
    using "2.prems"(2) by simp_all
  consider (skip) "s = [] \<or> s = ''.''" | (up) "\<not> (s = [] \<or> s = ''.'')" "s = ''..''"
    | (keep) "\<not> (s = [] \<or> s = ''.'')" "s \<noteq> ''..''" by blast
  then show ?case
  proof cases
    case skip
    then show ?thesis using "2.IH"(1)[OF skip "2.prems"(1) ss] by simp
  next
    case up
    have "\<forall>x \<in> set (case acc of [] \<Rightarrow> [] | _ # r \<Rightarrow> r). seg_ok x"
      by (cases acc) (use "2.prems"(1) in simp_all)
    from "2.IH"(2)[OF up this ss] show ?thesis using up by simp
  next
    case keep
    have "seg_ok s" using keep s by (intro seg_okI) simp_all
    then have "\<forall>x \<in> set (s # acc). seg_ok x" using "2.prems"(1) by simp
    from "2.IH"(3)[OF keep this ss] show ?thesis using keep by simp
  qed
qed
lemma path_segments_ok: "\<forall>x \<in> set (path_segments p). seg_ok x"
  unfolding path_segments_def
  by (rule normalize_segs_ok) (auto dest: split_sep_no_sep)

lemma normalize_segs_id:
  "\<forall>x \<in> set ss. seg_ok x \<Longrightarrow> normalize_segs acc ss = rev acc @ ss"
  by (induction ss arbitrary: acc) (simp_all add: normalize_segs_keep del: normalize_segs.simps(2))



lemma js_join_Cons: "ss \<noteq> [] \<Longrightarrow> js_join sep (s # ss) = s @ sep @ js_join sep ss"
  by (cases ss) simp_all

lemma split_sep_join:
  "t \<noteq> [] \<Longrightarrow> \<forall>x \<in> set t. CHR ''/'' \<notin> set x \<Longrightarrow> split_sep (js_join ''/'' t) = t"
proof (induction t)
  case Nil
  then show ?case by simp
next
  case (Cons s t)
  show ?case
  proof (cases "t = []")
    case True
    then show ?thesis using Cons.prems by (simp add: split_sep_plain)
  next
    case False
    have "split_sep (s @ CHR ''/'' # js_join ''/'' t) = split_sep s @ split_sep (js_join ''/'' t)"
      by (rule split_sep_append)
    then show ?thesis using False Cons by (simp add: js_join_Cons split_sep_plain)
  qed
qed

lemma path_segments_absolute:
  assumes "\<forall>x \<in> set t. seg_ok x"
  shows "path_segments (absolute_path t) = t"
proof (cases "t = []")
  case True
  then show ?thesis by (simp add: path_segments_def absolute_path_def)
next
  case False
  have "\<forall>x \<in> set t. CHR ''/'' \<notin> set x" using assms by (simp add: seg_ok_def)
  then have "split_sep (js_join ''/'' t) = t" using False by (simp add: split_sep_join)
  then have "split_sep (absolute_path t) = [] # t" by (simp add: absolute_path_def)
  then show ?thesis using assms by (simp add: path_segments_def normalize_segs_id)
qed

lemma js_join_append:
  "r \<noteq> [] \<Longrightarrow> u \<noteq> [] \<Longrightarrow> js_join sep (r @ u) = js_join sep r @ sep @ js_join sep u"
proof (induction r)
  case Nil
  then show ?case by simp
next
  case (Cons s r)
  then show ?case by (cases "r = []") (simp_all add: js_join_Cons)
qed

lemma confined_iff:
  assumes r: "r \<noteq> []" "\<forall>x \<in> set r. seg_ok x" and t: "\<forall>x \<in> set t. seg_ok x"
  shows "(absolute_path t = absolute_path r \<or> startsWith (absolute_path t) (absolute_path r @ ''/''))
         \<longleftrightarrow> prefix r t"
proof
  assume "prefix r t"
  then obtain u where u: "t = r @ u" by (auto simp: prefix_def)
  show "absolute_path t = absolute_path r \<or> startsWith (absolute_path t) (absolute_path r @ ''/'')"
  proof (cases "u = []")
    case True then show ?thesis using u by simp
  next
    case False
    then show ?thesis using u r(1) by (simp add: js_join_append absolute_path_def startsWith_def)
  qed
next
  assume a: "absolute_path t = absolute_path r \<or> startsWith (absolute_path t) (absolute_path r @ ''/'')"
  have pr: "path_segments (absolute_path r) = r" and pt: "path_segments (absolute_path t) = t"
    using r t by (simp_all add: path_segments_absolute)
  from a show "prefix r t"
  proof
    assume "absolute_path t = absolute_path r"
    then show ?thesis using pr pt by simp
  next
    assume "startsWith (absolute_path t) (absolute_path r @ ''/'')"
    then obtain rest where rest: "absolute_path t = absolute_path r @ ''/'' @ rest"
      by (metis append.assoc append_take_drop_id startsWith_def)
    then have "js_join ''/'' t = js_join ''/'' r @ CHR ''/'' # rest"
      by (simp add: absolute_path_def)
    then have "split_sep (js_join ''/'' t) = split_sep (js_join ''/'' r) @ split_sep rest"
      by (simp add: split_sep_append)
    moreover have "t \<noteq> []" using rest by (auto simp: absolute_path_def)
    ultimately have "t = r @ split_sep rest"
      using r t by (simp add: split_sep_join seg_ok_def)
    then show ?thesis by simp
  qed
qed

lemma SANDBOX_DIR_segments:
  "SANDBOX_DIR rr = absolute_path (path_segments rr @ [''sandbox-lite''])"
proof -
  have "split_sep (rr @ ''/sandbox-lite'') = split_sep rr @ [''sandbox-lite'']"
    using split_sep_append[of rr "''sandbox-lite''"] by (simp add: split_sep_plain)
  then show ?thesis
    by (simp add: SANDBOX_DIR_def path_resolve_def path_segments_def normalize_segs_append)
qed


lemma SANDBOX_DIR_ok: "\<forall>x \<in> set (path_segments rr @ [''sandbox-lite'']). seg_ok x"
  using path_segments_ok[of rr] by (simp add: seg_ok_def)

lemma path_resolve_segments:
  "path_resolve b p = absolute_path (path_segments (if p = [] then b else if hd p = CHR ''/'' then p else b @ ''/'' @ p))"
  by (simp add: path_resolve_def)

lemma confined_string_iff:
  "(path_resolve (SANDBOX_DIR rr) p = SANDBOX_DIR rr
      \<or> startsWith (path_resolve (SANDBOX_DIR rr) p) (SANDBOX_DIR rr @ ''/''))
   \<longleftrightarrow> prefix (path_segments (SANDBOX_DIR rr)) (path_segments (path_resolve (SANDBOX_DIR rr) p))"
proof -
  define R where "R = path_segments rr @ [''sandbox-lite'']"
  define T where "T = path_segments (if p = [] then SANDBOX_DIR rr
                       else if hd p = CHR ''/'' then p else SANDBOX_DIR rr @ ''/'' @ p)"
  have Rok: "\<forall>x \<in> set R. seg_ok x" and Rne: "R \<noteq> []"
    unfolding R_def using SANDBOX_DIR_ok[of rr] by simp_all
  have Tok: "\<forall>x \<in> set T. seg_ok x" unfolding T_def by (rule path_segments_ok)
  have S: "SANDBOX_DIR rr = absolute_path R" unfolding R_def by (rule SANDBOX_DIR_segments)
  have P: "path_resolve (SANDBOX_DIR rr) p = absolute_path T"
    unfolding T_def by (rule path_resolve_segments)
  have sR: "path_segments (absolute_path R) = R" using Rok by (rule path_segments_absolute)
  have sT: "path_segments (absolute_path T) = T" using Tok by (rule path_segments_absolute)
  have P': "path_resolve (absolute_path R) p = absolute_path T" using P unfolding S .
  show ?thesis unfolding S P' sR sT using Rne Rok Tok by (rule confined_iff)
qed

lemma resolveSandboxPath_prefix:
  "resolveSandboxPath rr p =
     (if prefix (path_segments (SANDBOX_DIR rr)) (path_segments (path_resolve (SANDBOX_DIR rr) p))
      then Inr (path_resolve (SANDBOX_DIR rr) p) else Inl (PathEscapesSandbox p))"
proof -
  have "(path_resolve (SANDBOX_DIR rr) p \<noteq> SANDBOX_DIR rr
          \<and> \<not> startsWith (path_resolve (SANDBOX_DIR rr) p) (SANDBOX_DIR rr @ ''/''))
        = (\<not> prefix (path_segments (SANDBOX_DIR rr))
                (path_segments (path_resolve (SANDBOX_DIR rr) p)))"
    using confined_string_iff[of rr p] by blast
  then show ?thesis unfolding resolveSandboxPath_def Let_def by simp
qed

lemma sibling_absolute:
  "path_segments (SANDBOX_DIR rr @ ''2'') = path_segments rr @ [''sandbox-lite2'']"
proof -
  have ok: "\<forall>x \<in> set (path_segments rr @ [''sandbox-lite2'']). seg_ok x"
    using path_segments_ok[of rr] by (simp add: seg_ok_def)
  have "SANDBOX_DIR rr @ ''2'' = absolute_path (path_segments rr @ [''sandbox-lite2''])"
  proof (cases "path_segments rr = []")
    case True
    then show ?thesis by (simp add: SANDBOX_DIR_segments absolute_path_def)
  next
    case False
    then show ?thesis by (simp add: SANDBOX_DIR_segments absolute_path_def js_join_append)
  qed
  then show ?thesis using ok by (simp add: path_segments_absolute)
qed

lemma sibling_relative:
  "path_segments (SANDBOX_DIR rr @ ''/../sandbox-lite2'') = path_segments rr @ [''sandbox-lite2'']"
proof -
  have "split_sep (SANDBOX_DIR rr @ ''/../sandbox-lite2'')
        = split_sep (SANDBOX_DIR rr) @ [''..'', ''sandbox-lite2'']"
    using split_sep_append[of "SANDBOX_DIR rr" "''../sandbox-lite2''"]
          split_sep_append[of "''..''" "''sandbox-lite2''"]
    by (simp add: split_sep_plain)
  moreover have "normalize_segs [] (split_sep (SANDBOX_DIR rr)) = path_segments rr @ [''sandbox-lite'']"
    using path_segments_absolute[OF SANDBOX_DIR_ok[of rr]]
    by (simp add: path_segments_def SANDBOX_DIR_segments)
  ultimately show ?thesis
    by (simp add: path_segments_def normalize_segs_append)
qed

lemma SANDBOX_DIR_hd: "hd (SANDBOX_DIR rr) = CHR ''/''" "SANDBOX_DIR rr \<noteq> []"
  by (simp_all add: SANDBOX_DIR_segments absolute_path_def)

text \<open>
  Claim C1. For every user path the resolver either fails with the path-escape error or
  returns an absolute path that is the sandbox root or starts with the root followed by
  the separator. It succeeds exactly when the segments of the root are a prefix of the
  segments of the normalised target, so a target outside the root fails and a target
  under or equal to the root is returned. A sibling directory whose name extends the
  root's name as a string (\<^verbatim>\<open>sandbox-lite2\<close>) is rejected, whether it is reached by an
  absolute path or through \<^verbatim>\<open>..\<close>.
\<close>

theorem resolveSandboxPath_confined:
  "resolveSandboxPath rr p =
     (if prefix (path_segments (SANDBOX_DIR rr)) (path_segments (path_resolve (SANDBOX_DIR rr) p))
      then Inr (path_resolve (SANDBOX_DIR rr) p) else Inl (PathEscapesSandbox p))
   \<and> (\<forall>t. resolveSandboxPath rr p = Inr t \<longrightarrow>
          hd t = CHR ''/'' \<and> (t = SANDBOX_DIR rr \<or> startsWith t (SANDBOX_DIR rr @ ''/'')))
   \<and> (\<forall>e. resolveSandboxPath rr p = Inl e \<longrightarrow> kind_of e = PathEscapeError)
   \<and> resolveSandboxPath rr (SANDBOX_DIR rr @ ''2'') = Inl (PathEscapesSandbox (SANDBOX_DIR rr @ ''2''))
   \<and> resolveSandboxPath rr ''../sandbox-lite2'' = Inl (PathEscapesSandbox ''../sandbox-lite2'')"
proof (intro conjI allI impI)
  show "resolveSandboxPath rr p =
     (if prefix (path_segments (SANDBOX_DIR rr)) (path_segments (path_resolve (SANDBOX_DIR rr) p))
      then Inr (path_resolve (SANDBOX_DIR rr) p) else Inl (PathEscapesSandbox p))"
    by (rule resolveSandboxPath_prefix)
next
  fix t assume "resolveSandboxPath rr p = Inr t"
  then have t: "t = path_resolve (SANDBOX_DIR rr) p"
    and c: "t = SANDBOX_DIR rr \<or> startsWith t (SANDBOX_DIR rr @ ''/'')"
    by (auto simp: resolveSandboxPath_def Let_def split: if_splits)
  show "hd t = CHR ''/''" unfolding t by (simp add: path_resolve_def absolute_path_def)
  show "t = SANDBOX_DIR rr \<or> startsWith t (SANDBOX_DIR rr @ ''/'')" by (rule c)
next
  fix e assume "resolveSandboxPath rr p = Inl e"
  then show "kind_of e = PathEscapeError"
    by (auto simp: resolveSandboxPath_def Let_def split: if_splits)
next
  have "path_segments (path_resolve (SANDBOX_DIR rr) (SANDBOX_DIR rr @ ''2''))
        = path_segments rr @ [''sandbox-lite2'']"
    using path_segments_ok[of rr]
    by (simp add: path_resolve_def SANDBOX_DIR_hd sibling_absolute path_segments_absolute seg_ok_def)
  moreover have "path_segments (SANDBOX_DIR rr) = path_segments rr @ [''sandbox-lite'']"
    using path_segments_absolute[OF SANDBOX_DIR_ok[of rr]] by (simp add: SANDBOX_DIR_segments)
  ultimately show "resolveSandboxPath rr (SANDBOX_DIR rr @ ''2'')
      = Inl (PathEscapesSandbox (SANDBOX_DIR rr @ ''2''))"
    by (simp add: resolveSandboxPath_prefix)
next
  have "path_segments (path_resolve (SANDBOX_DIR rr) ''../sandbox-lite2'')
        = path_segments rr @ [''sandbox-lite2'']"
    using path_segments_ok[of rr] sibling_relative[of rr]
    by (simp add: path_resolve_def path_segments_absolute seg_ok_def)
  moreover have "path_segments (SANDBOX_DIR rr) = path_segments rr @ [''sandbox-lite'']"
    using path_segments_absolute[OF SANDBOX_DIR_ok[of rr]] by (simp add: SANDBOX_DIR_segments)
  ultimately show "resolveSandboxPath rr ''../sandbox-lite2'' = Inl (PathEscapesSandbox ''../sandbox-lite2'')"
    by (simp add: resolveSandboxPath_prefix)
qed

theorem resolveSandboxPath_confined_witness:
  "resolveSandboxPath ''/srv/app'' ''notes/../a.txt'' = Inr ''/srv/app/sandbox-lite/a.txt''
   \<and> prefix (path_segments (SANDBOX_DIR ''/srv/app''))
        (path_segments (path_resolve (SANDBOX_DIR ''/srv/app'') ''notes/../a.txt''))
   \<and> startsWith ''/srv/app/sandbox-lite/a.txt'' (SANDBOX_DIR ''/srv/app'' @ ''/'')
   \<and> resolveSandboxPath ''/srv/app'' ''../../etc/passwd'' = Inl (PathEscapesSandbox ''../../etc/passwd'')
   \<and> kind_of (PathEscapesSandbox ''../../etc/passwd'') = PathEscapeError"
proof -
  have a: "resolveSandboxPath ''/srv/app'' ''notes/../a.txt'' = Inr ''/srv/app/sandbox-lite/a.txt''"
    by (simp add: resolveSandboxPath_def SANDBOX_DIR_def path_resolve_def path_segments_def
          absolute_path_def startsWith_def)
  have b: "resolveSandboxPath ''/srv/app'' ''../../etc/passwd''
           = Inl (PathEscapesSandbox ''../../etc/passwd'')"
    by (simp add: resolveSandboxPath_def SANDBOX_DIR_def path_resolve_def path_segments_def
          absolute_path_def startsWith_def)
  have c: "SANDBOX_DIR ''/srv/app'' = ''/srv/app/sandbox-lite''"
    by (simp add: SANDBOX_DIR_def path_resolve_def path_segments_def absolute_path_def)
  from resolveSandboxPath_confined[of "''/srv/app''" "''notes/../a.txt''"] a
  have "prefix (path_segments (SANDBOX_DIR ''/srv/app''))
        (path_segments (path_resolve (SANDBOX_DIR ''/srv/app'') ''notes/../a.txt''))"
    and "startsWith ''/srv/app/sandbox-lite/a.txt'' (SANDBOX_DIR ''/srv/app'' @ ''/'')"
    by (auto simp: c split: if_splits)
  with a b show ?thesis by simp
qed

subsection \<open>The model-output parser\<close>

lemma parse_not_json:
  "JSON_parse (normalizeModelOutput s) = None \<Longrightarrow> parseModelOutput s = Inl NotJSON"
  by (simp add: parseModelOutput_def)

lemma parse_not_object:
  "JSON_parse (normalizeModelOutput s) = Some v \<Longrightarrow> \<forall>ms. v \<noteq> JObject ms \<Longrightarrow>
   parseModelOutput s = Inl NotJSONObject"
  by (cases v) (simp_all add: parseModelOutput_def)

lemma parse_object:
  assumes "JSON_parse (normalizeModelOutput s) = Some (JObject ms)"
  shows "parseModelOutput s =
     (if map_of ms ''type'' = Some (JString ''tool'') then
        (if blank_or_not_string (map_of ms ''name'') then Inl ToolCallMissingName
         else if map_of ms ''args'' = None \<or> map_of ms ''args'' = Some JNull
         then Inr (JObject (alist_put ms ''args'' (JObject [])))
         else Inr (JObject ms))
      else if map_of ms ''type'' = Some (JString ''final'') then
        (case map_of ms ''content'' of
           Some (JString c) \<Rightarrow> Inr (JObject ms)
         | _ \<Rightarrow> Inl FinalMissingContent)
      else Inl UnknownType)"
proof -
  have tf: "JString ''tool'' \<noteq> JString ''final''" by simp
  show ?thesis
  proof (cases "map_of ms ''type'' = Some (JString ''tool'')")
    case True
    then show ?thesis using assms by (simp add: parseModelOutput_def)
  next
    case nt: False
    show ?thesis
    proof (cases "map_of ms ''type'' = Some (JString ''final'')")
      case True
      then show ?thesis using assms nt
        by (simp add: parseModelOutput_def split: option.splits json.splits)
    next
      case False
      then show ?thesis using assms nt by (simp add: parseModelOutput_def)
    qed
  qed
qed

lemma map_of_alist_put:
  "map_of (alist_put ms k v) k' = (if k' = k then Some v else map_of ms k')"
  by (induction ms) auto

lemma parse_outcomes:
  "(\<exists>e. parseModelOutput s = Inl e \<and> kind_of e = MalformedOutputError)
   \<or> (\<exists>ms. parseModelOutput s = Inr (JObject ms)
          \<and> (is_tool_action (JObject ms) \<or> is_final_action (JObject ms)))"
proof (cases "JSON_parse (normalizeModelOutput s)")
  case None
  then show ?thesis by (simp add: parse_not_json)
next
  case (Some v)
  show ?thesis
  proof (cases "\<exists>ms. v = JObject ms")
    case False
    then show ?thesis using Some by (simp add: parse_not_object)
  next
    case True
    then obtain ms where v: "v = JObject ms" by blast
    have tf: "JString ''tool'' \<noteq> JString ''final''" by simp
    show ?thesis unfolding parse_object[OF Some[unfolded v]]
      using tf
      by (auto simp: is_tool_action_def is_final_action_def map_of_alist_put
               split: option.splits json.splits)
  qed
qed









subsection \<open>The file system\<close>

lemma node_at_append_new:
  "node_at fs k = None \<Longrightarrow> node_at (fs @ [(k, n)]) q = (if q = k then Some n else node_at fs q)"
  by (auto simp: node_at_def map_add_def split: option.splits if_splits)

lemma mkdir_walk_mono:
  "mkdir_walk fs pre ss = (r, fs') \<Longrightarrow> node_at fs q = Some n \<Longrightarrow> node_at fs' q = Some n"
proof (induction fs pre ss arbitrary: r fs' rule: mkdir_walk.induct)
  case (1 fs pre)
  then show ?case by simp
next
  case (2 fs pre s ss)
  show ?case
  proof (cases "node_at fs (pre @ [s])")
    case None
    have n: "node_at (fs @ [(pre @ [s], Dir)]) q = Some n"
      using None "2.prems"(2) by (auto simp: node_at_append_new)
    have "mkdir_walk (fs @ [(pre @ [s], Dir)]) (pre @ [s]) ss = (r, fs')"
      using "2.prems"(1) None by simp
    from "2.IH"(1)[OF None this n] show ?thesis .
  next
    case (Some m)
    show ?thesis
    proof (cases m)
      case (File c)
      then show ?thesis using Some "2.prems" by simp
    next
      case Dir
      then have "mkdir_walk fs (pre @ [s]) ss = (r, fs')" using Some "2.prems"(1) by simp
      from "2.IH"(2)[OF Some Dir this "2.prems"(2)] show ?thesis .
    qed
  qed
qed

lemma dirs_exist_Nil: "dirs_exist fs pre []"
  by (simp add: dirs_exist_def)

lemma dirs_exist_Cons:
  "dirs_exist fs pre (s # ss) \<longleftrightarrow> node_at fs (pre @ [s]) = Some Dir \<and> dirs_exist fs (pre @ [s]) ss"
proof
  assume a: "dirs_exist fs pre (s # ss)"
  have "node_at fs (pre @ take 1 (s # ss)) = Some Dir" using a unfolding dirs_exist_def by force
  moreover have "node_at fs ((pre @ [s]) @ take k ss) = Some Dir" if "0 < k" "k \<le> length ss" for k
    using a that unfolding dirs_exist_def by (auto dest!: spec[of _ "Suc k"])
  ultimately show "node_at fs (pre @ [s]) = Some Dir \<and> dirs_exist fs (pre @ [s]) ss"
    by (simp add: dirs_exist_def)
next
  assume a: "node_at fs (pre @ [s]) = Some Dir \<and> dirs_exist fs (pre @ [s]) ss"
  show "dirs_exist fs pre (s # ss)"
    unfolding dirs_exist_def
  proof (intro allI impI)
    fix k assume k: "0 < k \<and> k \<le> length (s # ss)"
    then obtain j where j: "k = Suc j" by (cases k) auto
    show "node_at fs (pre @ take k (s # ss)) = Some Dir"
    proof (cases j)
      case 0
      then show ?thesis using a j by simp
    next
      case (Suc i)
      then show ?thesis using a j k unfolding dirs_exist_def by (auto dest!: spec[of _ j])
    qed
  qed
qed

lemma mkdir_walk_creates:
  "mkdir_walk fs pre ss = (None, fs') \<Longrightarrow> dirs_exist fs' pre ss"
proof (induction fs pre ss arbitrary: fs' rule: mkdir_walk.induct)
  case (1 fs pre)
  then show ?case by (simp add: dirs_exist_Nil)
next
  case (2 fs pre s ss)
  show ?case
  proof (cases "node_at fs (pre @ [s])")
    case None
    then have w: "mkdir_walk (fs @ [(pre @ [s], Dir)]) (pre @ [s]) ss = (None, fs')"
      using "2.prems" by simp
    have "node_at (fs @ [(pre @ [s], Dir)]) (pre @ [s]) = Some Dir"
      using None by (simp add: node_at_append_new)
    then have "node_at fs' (pre @ [s]) = Some Dir" using mkdir_walk_mono[OF w] by simp
    then show ?thesis using "2.IH"(1)[OF None w] by (simp add: dirs_exist_Cons)
  next
    case (Some m)
    show ?thesis
    proof (cases m)
      case (File c)
      then show ?thesis using Some "2.prems" by simp
    next
      case Dir
      then have w: "mkdir_walk fs (pre @ [s]) ss = (None, fs')" using Some "2.prems" by simp
      have "node_at fs' (pre @ [s]) = Some Dir" using mkdir_walk_mono[OF w] Some Dir by simp
      then show ?thesis using "2.IH"(2)[OF Some Dir w] by (simp add: dirs_exist_Cons)
    qed
  qed
qed

lemma mkdir_walk_existing:
  "dirs_exist fs pre ss \<Longrightarrow> mkdir_walk fs pre ss = (None, fs)"
  by (induction ss arbitrary: pre) (auto simp: dirs_exist_Cons)


subsection \<open>Tool dispatch\<close>

lemma fs_mkdir_effect:
  "fs_mkdir p w = (r, w') \<Longrightarrow>
   oplog w' = oplog w @ [OpMkdir p]
   \<and> mkdir_walk (files w) [] (path_segments p) = ((case r of Inl e \<Rightarrow> Some e | Inr u \<Rightarrow> None), files w')"
  by (auto simp: fs_mkdir_def split: prod.splits option.splits)

lemma fs_readdir_effect:
  "fs_readdir p w = (r, w') \<Longrightarrow> oplog w' = oplog w @ [OpReaddir p] \<and> files w' = files w"
  by (auto simp: fs_readdir_def Let_def split: option.splits node.splits)

lemma fs_readFile_effect:
  "fs_readFile p w = (r, w') \<Longrightarrow> oplog w' = oplog w @ [OpReadFile p] \<and> files w' = files w"
  by (auto simp: fs_readFile_def Let_def split: option.splits node.splits)

lemma fs_writeFile_effect:
  "fs_writeFile p c w = (r, w') \<Longrightarrow>
   oplog w' = oplog w @ [OpWriteFile p c]
   \<and> files w' = (case r of Inl e \<Rightarrow> files w | Inr u \<Rightarrow> alist_put (files w) (path_segments p) (File c))"
  by (auto simp: fs_writeFile_def Let_def split: option.splits node.splits)


lemma TOOL_NAMES_eq: "TOOL_NAMES = {''list_files'', ''read_file'', ''write_file''}"
  by (auto simp: TOOL_NAMES_def TOOL_DEFINITIONS_def)

lemma validateArgs_kind:
  "validateArgs name args = Inl e \<Longrightarrow> kind_of e = InvalidArgumentsError"
  by (auto simp: validateArgs_def assertNonEmptyString_def split: if_splits sum.splits)

lemma runTool_unknown:
  "name \<notin> TOOL_NAMES \<Longrightarrow> runTool rr name args w = (Inl (UnknownTool name), w)"
  by (simp add: runTool_def)

lemma runTool_invalid:
  "name \<in> TOOL_NAMES \<Longrightarrow> validateArgs name args = Inl e \<Longrightarrow> runTool rr name args w = (Inl e, w)"
  by (simp add: runTool_def)

lemma runTool_no_sandbox:
  "name \<in> TOOL_NAMES \<Longrightarrow> validateArgs name args = Inr u \<Longrightarrow>
   ensureSandbox rr w = (Inl e, w1) \<Longrightarrow> runTool rr name args w = (Inl (FsError e), w1)"
  by (simp add: runTool_def)

lemma runTool_list_files:
  "validateArgs ''list_files'' args = Inr u \<Longrightarrow> ensureSandbox rr w = (Inr u1, w1) \<Longrightarrow>
   runTool rr ''list_files'' args w =
     (case fs_readdir (SANDBOX_DIR rr) w1 of
        (Inl e, w2) \<Rightarrow> (Inl (FsError e), w2)
      | (Inr names, w2) \<Rightarrow>
          (Inr (if 0 < length names then js_join [CHR 0x0A] names else ''(empty)''), w2))"
  by (simp add: runTool_def TOOL_NAMES_eq)

lemma runTool_read_file:
  "validateArgs ''read_file'' args = Inr u \<Longrightarrow> ensureSandbox rr w = (Inr u1, w1) \<Longrightarrow>
   runTool rr ''read_file'' args w =
     (case resolveSandboxPath rr (js_string (get_prop args ''filePath'')) of
        Inl e \<Rightarrow> (Inl e, w1)
      | Inr target \<Rightarrow>
          (case fs_readFile target w1 of
             (Inl e, w2) \<Rightarrow> (Inl (FsError e), w2)
           | (Inr text, w2) \<Rightarrow> (Inr text, w2)))"
  by (simp add: runTool_def TOOL_NAMES_eq)

lemma runTool_write_file:
  "validateArgs ''write_file'' args = Inr u \<Longrightarrow> ensureSandbox rr w = (Inr u1, w1) \<Longrightarrow>
   runTool rr ''write_file'' args w =
     (case resolveSandboxPath rr (js_string (get_prop args ''filePath'')) of
        Inl e \<Rightarrow> (Inl e, w1)
      | Inr target \<Rightarrow>
          (case fs_mkdir (path_dirname target) w1 of
             (Inl e, w2) \<Rightarrow> (Inl (FsError e), w2)
           | (Inr u2, w2) \<Rightarrow>
               (case fs_writeFile target (js_string (get_prop args ''content'')) w2 of
                  (Inl e, w3) \<Rightarrow> (Inl (FsError e), w3)
                | (Inr u3, w3) \<Rightarrow>
                    (Inr (''Wrote '' @ js_string (get_prop args ''filePath'')), w3))))"
  by (simp add: runTool_def TOOL_NAMES_eq)

lemma resolve_kind: "resolveSandboxPath rr p = Inl e \<Longrightarrow> kind_of e = PathEscapeError"
  by (auto simp: resolveSandboxPath_def Let_def split: if_splits)

text \<open>What a call that passed validation does to the log.\<close>

lemma runTool_valid_log:
  assumes n: "name \<in> TOOL_NAMES" and v: "validateArgs name args = Inr u"
    and r: "runTool rr name args w = (r, w')"
  shows "\<exists>ops. oplog w' = oplog w @ OpMkdir (SANDBOX_DIR rr) # ops
           \<and> (\<forall>res. r = Inr res \<longrightarrow> ops \<noteq> [])
           \<and> (\<forall>e. r = Inl e \<longrightarrow> kind_of e = FilesystemError \<or> kind_of e = PathEscapeError)
           \<and> (\<forall>p c. OpWriteFile p c \<in> set ops \<longrightarrow>
                  name = ''write_file'' \<and> c = js_string (get_prop args ''content''))"
proof -
  obtain r1 w1 where e: "ensureSandbox rr w = (r1, w1)" by fastforce
  then have l1: "oplog w1 = oplog w @ [OpMkdir (SANDBOX_DIR rr)]"
    by (auto simp: ensureSandbox_def dest: fs_mkdir_effect)
  show ?thesis
  proof (cases r1)
    case (Inl fe)
    then show ?thesis using runTool_no_sandbox[OF n v e[unfolded Inl]] r l1 by auto
  next
    case (Inr u1)
    note e' = e[unfolded Inr]
    from n consider "name = ''list_files''" | "name = ''read_file''" | "name = ''write_file''"
      by (auto simp: TOOL_NAMES_eq)
    then show ?thesis
    proof cases
      case 1
      obtain r2 w2 where d: "fs_readdir (SANDBOX_DIR rr) w1 = (r2, w2)" by fastforce
      then have "oplog w2 = oplog w1 @ [OpReaddir (SANDBOX_DIR rr)]" by (auto dest: fs_readdir_effect)
      then show ?thesis using r l1 d runTool_list_files[OF v[unfolded 1] e', of ] 1
        by (cases r2) auto
    next
      case 2
      show ?thesis
      proof (cases "resolveSandboxPath rr (js_string (get_prop args ''filePath''))")
        case (Inl pe)
        then show ?thesis using r l1 runTool_read_file[OF v[unfolded 2] e'] 2 resolve_kind[OF Inl]
          by auto
      next
        case (Inr target)
        obtain r2 w2 where d: "fs_readFile target w1 = (r2, w2)" by fastforce
        then have "oplog w2 = oplog w1 @ [OpReadFile target]" by (auto dest: fs_readFile_effect)
        then show ?thesis using r l1 d runTool_read_file[OF v[unfolded 2] e'] 2 Inr
          by (cases r2) auto
      qed
    next
      case 3
      show ?thesis
      proof (cases "resolveSandboxPath rr (js_string (get_prop args ''filePath''))")
        case (Inl pe)
        then show ?thesis using r l1 runTool_write_file[OF v[unfolded 3] e'] 3 resolve_kind[OF Inl]
          by auto
      next
        case (Inr target)
        obtain r2 w2 where d: "fs_mkdir (path_dirname target) w1 = (r2, w2)" by fastforce
        then have l2: "oplog w2 = oplog w1 @ [OpMkdir (path_dirname target)]"
          by (auto dest: fs_mkdir_effect)
        show ?thesis
        proof (cases r2)
          case (Inl fe)
          then show ?thesis using r l1 l2 d runTool_write_file[OF v[unfolded 3] e'] 3 Inr by auto
        next
          case r2: (Inr u2)
          obtain r3 w3 where f: "fs_writeFile target (js_string (get_prop args ''content'')) w2 = (r3, w3)"
            by fastforce
          then have "oplog w3 = oplog w2 @ [OpWriteFile target (js_string (get_prop args ''content''))]"
            by (auto dest: fs_writeFile_effect)
          then show ?thesis
            using r l1 l2 d f runTool_write_file[OF v[unfolded 3] e'] 3 Inr r2
            by (cases r3) auto
        qed
      qed
    qed
  qed
qed




subsection \<open>The three tools\<close>

lemma mkdir_walk_new_keys:
  "mkdir_walk fs pre ss = (r, fs') \<Longrightarrow>
   \<exists>new. fs' = fs @ new
     \<and> (\<forall>q \<in> fst ` set new. \<exists>k. 0 < k \<and> k \<le> length ss \<and> q = pre @ take k ss)"
proof (induction fs pre ss arbitrary: r fs' rule: mkdir_walk.induct)
  case (1 fs pre)
  then show ?case by simp
next
  case (2 fs pre s ss)
  have lift: "\<exists>k. 0 < k \<and> k \<le> length (s # ss) \<and> q = pre @ take k (s # ss)"
    if "\<exists>k. 0 < k \<and> k \<le> length ss \<and> q = (pre @ [s]) @ take k ss" for q
  proof -
    from that obtain k where "0 < k" "k \<le> length ss" "q = (pre @ [s]) @ take k ss" by blast
    then have "0 < Suc k \<and> Suc k \<le> length (s # ss) \<and> q = pre @ take (Suc k) (s # ss)" by simp
    then show ?thesis by (rule exI)
  qed
  have first: "\<exists>k. 0 < k \<and> k \<le> length (s # ss) \<and> pre @ [s] = pre @ take k (s # ss)"
    by (rule exI[of _ 1]) simp
  show ?case
  proof (cases "node_at fs (pre @ [s])")
    case None
    then have w: "mkdir_walk (fs @ [(pre @ [s], Dir)]) (pre @ [s]) ss = (r, fs')"
      using "2.prems" by simp
    from "2.IH"(1)[OF None w] obtain new where
      new: "fs' = (fs @ [(pre @ [s], Dir)]) @ new"
        "\<forall>q \<in> fst ` set new. \<exists>k. 0 < k \<and> k \<le> length ss \<and> q = (pre @ [s]) @ take k ss"
      by blast
    show ?thesis
    proof (intro exI[of _ "(pre @ [s], Dir) # new"] conjI ballI)
      show "fs' = fs @ (pre @ [s], Dir) # new" using new(1) by simp
    next
      fix q assume "q \<in> fst ` set ((pre @ [s], Dir) # new)"
      then consider "q = pre @ [s]" | "q \<in> fst ` set new" by auto
      then show "\<exists>k. 0 < k \<and> k \<le> length (s # ss) \<and> q = pre @ take k (s # ss)"
      proof cases
        case 1
        then show ?thesis using first by simp
      next
        case 2
        then show ?thesis using new(2) by (intro lift) blast
      qed
    qed
  next
    case (Some m)
    show ?thesis
    proof (cases m)
      case (File c)
      then have "fs' = fs @ []" using Some "2.prems" by simp
      then show ?thesis by (intro exI[of _ "[]"]) simp
    next
      case Dir
      then have w: "mkdir_walk fs (pre @ [s]) ss = (r, fs')" using Some "2.prems" by simp
      from "2.IH"(2)[OF Some Dir w] obtain new where
        new: "fs' = fs @ new"
          "\<forall>q \<in> fst ` set new. \<exists>k. 0 < k \<and> k \<le> length ss \<and> q = (pre @ [s]) @ take k ss"
        by blast
      show ?thesis
      proof (intro exI[of _ new] conjI ballI)
        show "fs' = fs @ new" by (rule new(1))
      next
        fix q assume "q \<in> fst ` set new"
        then show "\<exists>k. 0 < k \<and> k \<le> length (s # ss) \<and> q = pre @ take k (s # ss)"
          using new(2) by (intro lift) blast
      qed
    qed
  qed
qed

lemma entry_names_mkdir:
  assumes "mkdir_walk fs [] d = (r, fs')"
  shows "entry_names fs' d = entry_names fs d"
proof -
  obtain new where new: "fs' = fs @ new"
    "\<forall>q \<in> fst ` set new. \<exists>k. 0 < k \<and> k \<le> length d \<and> q = [] @ take k d"
    using mkdir_walk_new_keys[OF assms] by blast
  have "\<not> (q \<noteq> [] \<and> butlast q = d)" if "q \<in> set (map fst new)" for q
  proof -
    from that have "q \<in> fst ` set new" by simp
    with new(2) obtain k where k: "0 < k" "k \<le> length d" "q = take k d" by force
    then have "length (butlast q) < length d" by simp
    then show ?thesis by auto
  qed
  then have "filter (\<lambda>q. q \<noteq> [] \<and> butlast q = d) (map fst new) = []"
    by (simp add: filter_empty_conv)
  then show ?thesis by (simp add: entry_names_def new(1))
qed

lemma ensureSandbox_dir:
  assumes "ensureSandbox rr w = (Inr u, w1)"
  shows "node_at (files w1) (path_segments (SANDBOX_DIR rr)) = Some Dir"
    and "entry_names (files w1) (path_segments (SANDBOX_DIR rr))
         = entry_names (files w) (path_segments (SANDBOX_DIR rr))"
    and "oplog w1 = oplog w @ [OpMkdir (SANDBOX_DIR rr)]"
    and "dirs_exist (files w1) [] (path_segments (SANDBOX_DIR rr))"
proof -
  let ?S = "path_segments (SANDBOX_DIR rr)"
  have m: "mkdir_walk (files w) [] ?S = (None, files w1)"
    and l: "oplog w1 = oplog w @ [OpMkdir (SANDBOX_DIR rr)]"
    using fs_mkdir_effect[OF assms[unfolded ensureSandbox_def]] by simp_all
  show "oplog w1 = oplog w @ [OpMkdir (SANDBOX_DIR rr)]" by (rule l)
  show d: "dirs_exist (files w1) [] ?S" using m by (rule mkdir_walk_creates)
  show "node_at (files w1) ?S = Some Dir"
  proof (cases "?S = []")
    case True
    then show ?thesis by (simp add: node_at_def)
  next
    case False
    then show ?thesis using d unfolding dirs_exist_def by (auto dest!: spec[of _ "length ?S"])
  qed
  show "entry_names (files w1) ?S = entry_names (files w) ?S" using m by (rule entry_names_mkdir)
qed

text \<open>
  Claim C8. \<open>list_files\<close> takes no argument: with an argument object that has any key it
  fails with an invalid-arguments error. With the empty object, once the sandbox root
  exists, it returns the names of the entries directly under the root joined by line
  feeds, or the marker \<^verbatim>\<open>(empty)\<close> when there is none; the marker is not the empty string.
\<close>

theorem list_files_result:
  "(\<forall>ms. ms \<noteq> [] \<longrightarrow>
      runTool rr ''list_files'' (JObject ms) w = (Inl ListFilesArgs, w)
      \<and> kind_of ListFilesArgs = InvalidArgumentsError)
   \<and> (\<forall>u w1. ensureSandbox rr w = (Inr u, w1) \<longrightarrow>
        runTool rr ''list_files'' (JObject []) w =
          (Inr (if entry_names (files w) (path_segments (SANDBOX_DIR rr)) = [] then ''(empty)''
                else js_join [CHR 0x0A] (entry_names (files w) (path_segments (SANDBOX_DIR rr)))),
           w1\<lparr>oplog := oplog w1 @ [OpReaddir (SANDBOX_DIR rr)]\<rparr>))
   \<and> ''(empty)'' \<noteq> []"
proof (intro conjI allI impI)
  fix ms :: "(string \<times> json) list" assume "ms \<noteq> []"
  then have "validateArgs ''list_files'' (JObject ms) = Inl ListFilesArgs"
    by (simp add: validateArgs_def)
  then show "runTool rr ''list_files'' (JObject ms) w = (Inl ListFilesArgs, w)"
    by (intro runTool_invalid) (simp_all add: TOOL_NAMES_eq)
next
  fix ms :: "(string \<times> json) list"
  show "kind_of ListFilesArgs = InvalidArgumentsError" by simp
next
  fix u w1 assume e: "ensureSandbox rr w = (Inr u, w1)"
  have v: "validateArgs ''list_files'' (JObject []) = Inr ()" by (simp add: validateArgs_def)
  show "runTool rr ''list_files'' (JObject []) w =
          (Inr (if entry_names (files w) (path_segments (SANDBOX_DIR rr)) = [] then ''(empty)''
                else js_join [CHR 0x0A] (entry_names (files w) (path_segments (SANDBOX_DIR rr)))),
           w1\<lparr>oplog := oplog w1 @ [OpReaddir (SANDBOX_DIR rr)]\<rparr>)"
    unfolding runTool_list_files[OF v e]
    using ensureSandbox_dir(1,2)[OF e] by (simp add: fs_readdir_def Let_def)
next
  show "''(empty)'' \<noteq> []" by simp
qed

theorem list_files_result_witness:
  "runTool ''/srv/app'' ''list_files'' (JObject [(''dir'', JString ''.'')]) \<lparr>files = [], oplog = []\<rparr>
     = (Inl ListFilesArgs, \<lparr>files = [], oplog = []\<rparr>)
   \<and> fst (runTool ''/srv/app'' ''list_files'' (JObject []) \<lparr>files = [], oplog = []\<rparr>)
     = Inr ''(empty)''
   \<and> fst (runTool ''/srv/app'' ''list_files'' (JObject [])
            \<lparr>files = [([''srv'', ''app'', ''sandbox-lite'', ''a.txt''], File ''x''),
                      ([''srv'', ''app'', ''sandbox-lite'', ''notes''], Dir),
                      ([''srv'', ''app'', ''sandbox-lite'', ''notes'', ''b.txt''], File ''y'')],
              oplog = []\<rparr>)
     = Inr (''a.txt'' @ [CHR 0x0A] @ ''notes'')"
proof -
  let ?w = "\<lparr>files = [], oplog = []\<rparr>"
  let ?v = "\<lparr>files = [([''srv'', ''app'', ''sandbox-lite'', ''a.txt''], File ''x''),
                      ([''srv'', ''app'', ''sandbox-lite'', ''notes''], Dir),
                      ([''srv'', ''app'', ''sandbox-lite'', ''notes'', ''b.txt''], File ''y'')],
              oplog = []\<rparr>"
  have 1: "runTool ''/srv/app'' ''list_files'' (JObject [(''dir'', JString ''.'')]) ?w
           = (Inl ListFilesArgs, ?w)"
    using list_files_result[of "''/srv/app''" ?w, THEN conjunct1, rule_format,
            of "[(''dir'', JString ''.'')]"] by simp
  have e1: "ensureSandbox ''/srv/app'' ?w
            = (Inr (), \<lparr>files = [([''srv''], Dir), ([''srv'', ''app''], Dir),
                                 ([''srv'', ''app'', ''sandbox-lite''], Dir)],
                        oplog = [OpMkdir ''/srv/app/sandbox-lite'']\<rparr>)"
    by code_simp
  have n1: "entry_names (files ?w) (path_segments (SANDBOX_DIR ''/srv/app'')) = []"
    by code_simp
  have 2: "fst (runTool ''/srv/app'' ''list_files'' (JObject []) ?w) = Inr ''(empty)''"
    using list_files_result[of "''/srv/app''" ?w, THEN conjunct2, THEN conjunct1, rule_format, OF e1]
    unfolding n1 by simp
  have e2: "ensureSandbox ''/srv/app'' ?v
            = (Inr (), \<lparr>files = [([''srv'', ''app'', ''sandbox-lite'', ''a.txt''], File ''x''),
                      ([''srv'', ''app'', ''sandbox-lite'', ''notes''], Dir),
                      ([''srv'', ''app'', ''sandbox-lite'', ''notes'', ''b.txt''], File ''y''),
                      ([''srv''], Dir), ([''srv'', ''app''], Dir),
                      ([''srv'', ''app'', ''sandbox-lite''], Dir)],
                        oplog = [OpMkdir ''/srv/app/sandbox-lite'']\<rparr>)"
    by code_simp
  have n2: "entry_names (files ?v) (path_segments (SANDBOX_DIR ''/srv/app'')) = [''a.txt'', ''notes'']"
    by code_simp
  have 3: "fst (runTool ''/srv/app'' ''list_files'' (JObject []) ?v)
           = Inr (''a.txt'' @ [CHR 0x0A] @ ''notes'')"
    using list_files_result[of "''/srv/app''" ?v, THEN conjunct2, THEN conjunct1, rule_format, OF e2]
    unfolding n2 by simp
  from 1 2 3 show ?thesis by (simp only: simp_thms)
qed

lemma not_blank_iff:
  "\<not> blank_or_not_string v \<longleftrightarrow> (\<exists>s. v = Some (JString s) \<and> js_trim s \<noteq> [])"
  by (cases v rule: blank_or_not_string.cases) simp_all

lemma get_prop_object: "get_prop a k = Some v \<Longrightarrow> \<exists>ms. a = JObject ms"
  by (cases a) simp_all

lemma validateArgs_object:
  "validateArgs name (JObject ms) =
     (if name = ''list_files'' then (if ms \<noteq> [] then Inl ListFilesArgs else Inr ())
      else if name = ''read_file'' then assertNonEmptyString (map_of ms ''filePath'') ''filePath''
      else if name = ''write_file'' then
        (case assertNonEmptyString (map_of ms ''filePath'') ''filePath'' of
           Inl e \<Rightarrow> Inl e
         | Inr u \<Rightarrow> assertNonEmptyString (map_of ms ''content'') ''content'')
      else Inr ())"
  by (simp add: validateArgs_def split: sum.splits)


lemma validate_write_ok:
  "validateArgs ''write_file'' a = Inr u \<Longrightarrow>
   \<exists>p c. get_prop a ''filePath'' = Some (JString p) \<and> js_trim p \<noteq> []
        \<and> get_prop a ''content'' = Some (JString c) \<and> js_trim c \<noteq> []"
proof -
  assume v: "validateArgs ''write_file'' a = Inr u"
  then obtain ms where a: "a = JObject ms"
    by (cases a) (simp_all add: validateArgs_def)
  from v have "\<not> blank_or_not_string (map_of ms ''filePath'')"
    "\<not> blank_or_not_string (map_of ms ''content'')"
    unfolding a validateArgs_object assertNonEmptyString_def
    by (auto split: if_splits sum.splits)
  then show ?thesis using a by (simp add: not_blank_iff)
qed

lemma validate_blank_path:
  assumes "name = ''read_file'' \<or> name = ''write_file''"
    and "get_prop a ''filePath'' = Some (JString p)" "js_trim p = []"
  shows "validateArgs name a = Inl (NotNonEmptyString ''filePath'')"
proof -
  obtain ms where a: "a = JObject ms" using assms(2) get_prop_object by blast
  have "blank_or_not_string (map_of ms ''filePath'')" using assms(2,3) a by simp
  then show ?thesis using assms(1) unfolding a validateArgs_object assertNonEmptyString_def
    by auto
qed

lemma validate_blank_content:
  assumes "get_prop a ''filePath'' = Some (JString p)" "js_trim p \<noteq> []"
    and "get_prop a ''content'' = Some (JString c)" "js_trim c = []"
  shows "validateArgs ''write_file'' a = Inl (NotNonEmptyString ''content'')"
proof -
  obtain ms where a: "a = JObject ms" using assms(1) get_prop_object by blast
  have "\<not> blank_or_not_string (map_of ms ''filePath'')" "blank_or_not_string (map_of ms ''content'')"
    using assms a by simp_all
  then show ?thesis unfolding a validateArgs_object assertNonEmptyString_def by simp
qed

lemma runTool_stages:
  "(name \<notin> TOOL_NAMES \<and> runTool rr name args w = (Inl (UnknownTool name), w))
   \<or> (name \<in> TOOL_NAMES \<and> (\<exists>e. validateArgs name args = Inl e \<and> runTool rr name args w = (Inl e, w)))
   \<or> (name \<in> TOOL_NAMES \<and> (\<exists>u. validateArgs name args = Inr u))"
  using runTool_unknown[of name rr args w] runTool_invalid[of name args _ rr w]
  by (cases "validateArgs name args") auto

text \<open>
  Claim C9. \<open>read_file\<close> and \<open>write_file\<close> reject a \<^verbatim>\<open>filePath\<close> that is empty or white space
  only, and \<open>write_file\<close> also rejects such a \<^verbatim>\<open>content\<close>; the error is of the kind invalid
  arguments and the world is returned as it was, so nothing has touched the file system.
  Consequently every write that any call to \<open>runTool\<close> hands to the file system carries a
  content that is not blank.
\<close>

theorem blank_arguments_rejected:
  "(\<forall>p. (name = ''read_file'' \<or> name = ''write_file'')
        \<and> get_prop args ''filePath'' = Some (JString p) \<and> js_trim p = []
      \<longrightarrow> runTool rr name args w = (Inl (NotNonEmptyString ''filePath''), w))
   \<and> (\<forall>p c. get_prop args ''filePath'' = Some (JString p) \<and> js_trim p \<noteq> []
        \<and> get_prop args ''content'' = Some (JString c) \<and> js_trim c = []
      \<longrightarrow> runTool rr ''write_file'' args w = (Inl (NotNonEmptyString ''content''), w))
   \<and> (\<forall>field. kind_of (NotNonEmptyString field) = InvalidArgumentsError)
   \<and> (\<forall>r w'. runTool rr name args w = (r, w')
      \<longrightarrow> (\<exists>ops. oplog w' = oplog w @ ops
             \<and> (\<forall>t c. OpWriteFile t c \<in> set ops \<longrightarrow> js_trim c \<noteq> [])))"
proof (intro conjI allI impI)
  fix p
  assume a: "(name = ''read_file'' \<or> name = ''write_file'')
        \<and> get_prop args ''filePath'' = Some (JString p) \<and> js_trim p = []"
  then have n: "name = ''read_file'' \<or> name = ''write_file''"
    and g: "get_prop args ''filePath'' = Some (JString p)" and t: "js_trim p = []" by blast+
  have "name \<in> TOOL_NAMES" using n by (auto simp: TOOL_NAMES_eq)
  then show "runTool rr name args w = (Inl (NotNonEmptyString ''filePath''), w)"
    using validate_blank_path[OF n g t] by (rule runTool_invalid)
next
  fix p c
  assume a: "get_prop args ''filePath'' = Some (JString p) \<and> js_trim p \<noteq> []
        \<and> get_prop args ''content'' = Some (JString c) \<and> js_trim c = []"
  then have g: "get_prop args ''filePath'' = Some (JString p)" and t: "js_trim p \<noteq> []"
    and h: "get_prop args ''content'' = Some (JString c)" and s: "js_trim c = []" by blast+
  have "''write_file'' \<in> TOOL_NAMES" by (simp add: TOOL_NAMES_eq)
  then show "runTool rr ''write_file'' args w = (Inl (NotNonEmptyString ''content''), w)"
    using validate_blank_content[OF g t h s] by (rule runTool_invalid)
next
  fix field show "kind_of (NotNonEmptyString field) = InvalidArgumentsError" by simp
next
  fix r w' assume r: "runTool rr name args w = (r, w')"
  from runTool_stages[of name rr args w]
  show "\<exists>ops. oplog w' = oplog w @ ops \<and> (\<forall>t c. OpWriteFile t c \<in> set ops \<longrightarrow> js_trim c \<noteq> [])"
  proof (elim disjE conjE exE)
    fix u assume n: "name \<in> TOOL_NAMES" and v: "validateArgs name args = Inr u"
    from runTool_valid_log[OF n v r] obtain ops where
      ops: "oplog w' = oplog w @ OpMkdir (SANDBOX_DIR rr) # ops"
        "\<forall>t c. OpWriteFile t c \<in> set ops \<longrightarrow>
            name = ''write_file'' \<and> c = js_string (get_prop args ''content'')"
      by blast
    have "js_trim c \<noteq> []" if "OpWriteFile t c \<in> set (OpMkdir (SANDBOX_DIR rr) # ops)" for t c
    proof -
      from that ops(2) have nm: "name = ''write_file''" and c: "c = js_string (get_prop args ''content'')"
        by auto
      from validate_write_ok[OF v[unfolded nm]] show ?thesis using c by auto
    qed
    then show ?thesis using ops(1) by blast
  next
    assume "runTool rr name args w = (Inl (UnknownTool name), w)"
    then have "oplog w' = oplog w @ []" using r by simp
    then show ?thesis by (intro exI[of _ "[]"]) simp
  next
    fix e assume "runTool rr name args w = (Inl e, w)"
    then have "oplog w' = oplog w @ []" using r by simp
    then show ?thesis by (intro exI[of _ "[]"]) simp
  qed
qed

theorem blank_arguments_rejected_witness:
  "runTool ''/srv/app'' ''read_file'' (JObject [(''filePath'', JString ''   '')])
      \<lparr>files = [], oplog = []\<rparr>
     = (Inl (NotNonEmptyString ''filePath''), \<lparr>files = [], oplog = []\<rparr>)
   \<and> runTool ''/srv/app'' ''write_file''
        (JObject [(''filePath'', JString ''a.txt''), (''content'', JString [CHR 0x0A, CHR 0x20])])
        \<lparr>files = [], oplog = []\<rparr>
     = (Inl (NotNonEmptyString ''content''), \<lparr>files = [], oplog = []\<rparr>)
   \<and> (\<exists>ops. oplog (snd (runTool ''/srv/app'' ''write_file''
                  (JObject [(''filePath'', JString ''a.txt''), (''content'', JString ''hi'')])
                  \<lparr>files = [], oplog = []\<rparr>))
             = [] @ ops
             \<and> OpWriteFile ''/srv/app/sandbox-lite/a.txt'' ''hi'' \<in> set ops
             \<and> js_trim ''hi'' \<noteq> [])"
proof -
  let ?w = "\<lparr>files = [], oplog = []\<rparr>"
  let ?a1 = "JObject [(''filePath'', JString ''   '')]"
  let ?a2 = "JObject [(''filePath'', JString ''a.txt''), (''content'', JString [CHR 0x0A, CHR 0x20])]"
  let ?a3 = "JObject [(''filePath'', JString ''a.txt''), (''content'', JString ''hi'')]"
  have b1: "js_trim ''   '' = []" and b2: "js_trim [CHR 0x0A, CHR 0x20] = []"
    and b3: "js_trim ''a.txt'' \<noteq> []" by code_simp+
  have 1: "runTool ''/srv/app'' ''read_file'' ?a1 ?w = (Inl (NotNonEmptyString ''filePath''), ?w)"
    using blank_arguments_rejected[of "''read_file''" ?a1 "''/srv/app''" ?w, THEN conjunct1,
            rule_format, of "''   ''"] b1 by simp
  have 2: "runTool ''/srv/app'' ''write_file'' ?a2 ?w = (Inl (NotNonEmptyString ''content''), ?w)"
    using blank_arguments_rejected[of "''write_file''" ?a2 "''/srv/app''" ?w, THEN conjunct2,
            THEN conjunct1, rule_format, of "''a.txt''" "[CHR 0x0A, CHR 0x20]"] b2 b3 by simp
  let ?w3 = "\<lparr>files = [([''srv''], Dir), ([''srv'', ''app''], Dir),
                       ([''srv'', ''app'', ''sandbox-lite''], Dir),
                       ([''srv'', ''app'', ''sandbox-lite'', ''a.txt''], File ''hi'')],
               oplog = [OpMkdir ''/srv/app/sandbox-lite'', OpMkdir ''/srv/app/sandbox-lite'',
                        OpWriteFile ''/srv/app/sandbox-lite/a.txt'' ''hi'']\<rparr>"
  have r3: "runTool ''/srv/app'' ''write_file'' ?a3 ?w = (Inr ''Wrote a.txt'', ?w3)"
    by code_simp
  from blank_arguments_rejected[of "''write_file''" ?a3 "''/srv/app''" ?w, THEN conjunct2,
            THEN conjunct2, THEN conjunct2, rule_format, OF r3]
  obtain ops where ops: "oplog ?w3 = oplog ?w @ ops"
    "\<forall>t c. OpWriteFile t c \<in> set ops \<longrightarrow> js_trim c \<noteq> []" by blast
  from ops(1) have "ops = oplog ?w3" by simp
  then have m: "OpWriteFile ''/srv/app/sandbox-lite/a.txt'' ''hi'' \<in> set ops" by simp
  with ops(2) have t: "js_trim ''hi'' \<noteq> []" by blast
  have "oplog (snd (runTool ''/srv/app'' ''write_file'' ?a3 ?w)) = [] @ ops"
    using ops(1) by (simp only: r3 snd_conv) simp
  with m t have 3: "\<exists>ops. oplog (snd (runTool ''/srv/app'' ''write_file'' ?a3 ?w)) = [] @ ops
             \<and> OpWriteFile ''/srv/app/sandbox-lite/a.txt'' ''hi'' \<in> set ops
             \<and> js_trim ''hi'' \<noteq> []" by blast
  from 1 2 3 show ?thesis by (simp only: simp_thms)
qed

subsection \<open>Writing, then reading\<close>













subsection \<open>The agent loop\<close>

lemma agent_loop_stop:
  "\<not> i < m \<Longrightarrow> agent_loop rr llm m i st = (Inl ExceededMaxIterations, st)"
  by (subst agent_loop.simps) simp

lemma agent_loop_step:
  "i < m \<Longrightarrow> agent_loop rr llm m i st =
     (case loop_body rr llm st of
        Finished r st' \<Rightarrow> (r, st')
      | Next st' \<Rightarrow> agent_loop rr llm m (i + 1) st')"
  by (subst agent_loop.simps) simp

lemma agent_loop_passes:
  "agent_loop rr llm m i st =
     (case passes rr llm (nat (m - i)) st of
        Finished r st' \<Rightarrow> (r, st')
      | Next st' \<Rightarrow> (Inl ExceededMaxIterations, st'))"
proof (induction "nat (m - i)" arbitrary: i st)
  case 0
  then have "\<not> i < m" by simp
  then show ?case using 0 by (simp add: agent_loop_stop)
next
  case (Suc n)
  then have lt: "i < m" and n: "n = nat (m - (i + 1))" by simp_all
  show ?case
  proof (cases "loop_body rr llm st")
    case (Finished r st')
    then show ?thesis using lt Suc(2)[symmetric] by (simp add: agent_loop_step)
  next
    case (Next st')
    then show ?thesis using lt Suc(2)[symmetric] Suc(1)[OF n, of st'] n[symmetric]
      by (simp add: agent_loop_step)
  qed
qed

lemma callModel_cases:
  "callModel llm st = (r, st1) \<Longrightarrow>
   st1 = st\<lparr>model_calls := Suc (model_calls st)\<rparr>
   \<and> (case r of
        Inr raw \<Rightarrow> llm (model_calls st) (messages st) = Reply (Some raw) \<and> raw \<noteq> []
      | Inl e \<Rightarrow> e = AdapterFailed \<or> e = EmptyModelResponse)"
  by (auto simp: callModel_def Let_def split: llm_reply.splits option.splits if_splits)

lemma callModel_reply:
  "llm (model_calls st) (messages st) = Reply (Some raw) \<Longrightarrow> raw \<noteq> [] \<Longrightarrow>
   callModel llm st = (Inr raw, st\<lparr>model_calls := Suc (model_calls st)\<rparr>)"
  by (simp add: callModel_def Let_def)

text \<open>The body of the loop after a reply, by the outcome of parsing and of the tool.\<close>

lemma loop_body_parse_error:
  assumes "llm (model_calls st) (messages st) = Reply (Some raw)" "raw \<noteq> []"
    and "parseModelOutput raw = Inl e"
  shows "loop_body rr llm st = Finished (Inl e) (st\<lparr>model_calls := Suc (model_calls st)\<rparr>)"
  using assms by (simp add: loop_body_def callModel_reply)

lemma loop_body_final:
  assumes "llm (model_calls st) (messages st) = Reply (Some raw)" "raw \<noteq> []"
    and "parseModelOutput raw = Inr a" "get_prop a ''type'' = Some (JString ''final'')"
  shows "loop_body rr llm st =
     Finished (Inr (js_string (get_prop a ''content'')))
       (st\<lparr>model_calls := Suc (model_calls st),
           messages := messages st @ [\<lparr>msg_role = Assistant, msg_content = raw\<rparr>],
           steps := steps st @ [FinalStep (js_string (get_prop a ''content''))]\<rparr>)"
  using assms by (simp add: loop_body_def callModel_reply Let_def)

lemma loop_body_tool_error:
  assumes "llm (model_calls st) (messages st) = Reply (Some raw)" "raw \<noteq> []"
    and "parseModelOutput raw = Inr a" "get_prop a ''type'' \<noteq> Some (JString ''final'')"
    and "runTool rr (js_string (get_prop a ''name'')) (args_or_empty (get_prop a ''args'')) (disk st)
         = (Inl e, w')"
  shows "loop_body rr llm st =
     Finished (Inl e)
       (st\<lparr>model_calls := Suc (model_calls st),
           messages := messages st @ [\<lparr>msg_role = Assistant, msg_content = raw\<rparr>],
           disk := w', tool_calls := Suc (tool_calls st)\<rparr>)"
  using assms by (simp add: loop_body_def callModel_reply Let_def)

lemma loop_body_tool_ok:
  assumes "llm (model_calls st) (messages st) = Reply (Some raw)" "raw \<noteq> []"
    and "parseModelOutput raw = Inr a" "get_prop a ''type'' \<noteq> Some (JString ''final'')"
    and "runTool rr (js_string (get_prop a ''name'')) (args_or_empty (get_prop a ''args'')) (disk st)
         = (Inr res, w')"
  shows "loop_body rr llm st =
     Next
       (st\<lparr>model_calls := Suc (model_calls st),
           disk := w', tool_calls := Suc (tool_calls st),
           steps := steps st @ [ToolStep (js_string (get_prop a ''name''))
                                  (args_or_empty (get_prop a ''args'')) res],
           messages := messages st @ [\<lparr>msg_role = Assistant, msg_content = raw\<rparr>]
             @ [\<lparr>msg_role = User,
                 msg_content = JSON_stringify
                   (JObject [(''type'', JString ''observation''),
                             (''name'', JString (js_string (get_prop a ''name''))),
                             (''result'', JString res)])\<rparr>]\<rparr>)"
  using assms by (simp add: loop_body_def callModel_reply Let_def)

lemma loop_body_no_reply:
  assumes "\<not> (\<exists>raw. llm (model_calls st) (messages st) = Reply (Some raw) \<and> raw \<noteq> [])"
  shows "\<exists>e. loop_body rr llm st = Finished (Inl e) (st\<lparr>model_calls := Suc (model_calls st)\<rparr>)
             \<and> kind_of e = AdapterError"
  using assms
  by (auto simp: loop_body_def callModel_def Let_def split: llm_reply.splits option.splits)

lemma parse_type:
  "parseModelOutput raw = Inr a \<Longrightarrow>
   get_prop a ''type'' = Some (JString ''tool'') \<and> is_tool_action a
   \<or> get_prop a ''type'' = Some (JString ''final'') \<and> is_final_action a"
  using parse_outcomes[of raw] by (auto simp: is_tool_action_def is_final_action_def)

lemma loop_body_counts:
  "model_calls (pass_state (loop_body rr llm st)) = Suc (model_calls st)
   \<and> tool_calls (pass_state (loop_body rr llm st)) \<le> Suc (tool_calls st)"
proof (cases "\<exists>raw. llm (model_calls st) (messages st) = Reply (Some raw) \<and> raw \<noteq> []")
  case False
  then show ?thesis using loop_body_no_reply[of llm st rr, OF False] by auto
next
  case True
  then obtain raw where t: "llm (model_calls st) (messages st) = Reply (Some raw)" "raw \<noteq> []"
    by blast
  show ?thesis
  proof (cases "parseModelOutput raw")
    case (Inl e)
    then show ?thesis using loop_body_parse_error[where llm=llm and st=st, OF t Inl] by simp
  next
    case (Inr a)
    show ?thesis
    proof (cases "get_prop a ''type'' = Some (JString ''final'')")
      case True
      then show ?thesis using loop_body_final[where llm=llm and st=st, OF t Inr True] by simp
    next
      case False
      obtain r w' where
        r: "runTool rr (js_string (get_prop a ''name'')) (args_or_empty (get_prop a ''args'')) (disk st)
            = (r, w')" by fastforce
      show ?thesis
      proof (cases r)
        case (Inl e)
        then show ?thesis using loop_body_tool_error[where llm=llm and st=st, OF t Inr False r[unfolded Inl]] by simp
      next
        case (Inr res)
        then show ?thesis using loop_body_tool_ok[where llm=llm and st=st, OF t \<open>parseModelOutput raw = Inr a\<close> False r[unfolded Inr]]
          by simp
      qed
    qed
  qed
qed

lemma loop_body_Next:
  assumes "loop_body rr llm st = Next st'"
  shows "\<exists>raw a res w'.
           llm (model_calls st) (messages st) = Reply (Some raw) \<and> raw \<noteq> []
           \<and> parseModelOutput raw = Inr a \<and> is_tool_action a
           \<and> runTool rr (js_string (get_prop a ''name'')) (args_or_empty (get_prop a ''args''))
                (disk st) = (Inr res, w')
           \<and> model_calls st' = Suc (model_calls st) \<and> tool_calls st' = Suc (tool_calls st)"
proof (cases "\<exists>raw. llm (model_calls st) (messages st) = Reply (Some raw) \<and> raw \<noteq> []")
  case False
  then show ?thesis using loop_body_no_reply[of llm st rr, OF False] assms by auto
next
  case True
  then obtain raw where t: "llm (model_calls st) (messages st) = Reply (Some raw)" "raw \<noteq> []"
    by blast
  show ?thesis
  proof (cases "parseModelOutput raw")
    case (Inl e)
    then show ?thesis using loop_body_parse_error[where llm=llm and st=st, OF t Inl, of rr] assms by simp
  next
    case (Inr a)
    show ?thesis
    proof (cases "get_prop a ''type'' = Some (JString ''final'')")
      case True
      then show ?thesis using loop_body_final[where llm=llm and st=st, OF t Inr True, of rr] assms by simp
    next
      case False
      then have ta: "is_tool_action a" using parse_type[OF Inr] by auto
      obtain r w' where
        r: "runTool rr (js_string (get_prop a ''name'')) (args_or_empty (get_prop a ''args'')) (disk st)
            = (r, w')" by fastforce
      show ?thesis
      proof (cases r)
        case (Inl e)
        then show ?thesis using loop_body_tool_error[where llm=llm and st=st, OF t Inr False r[unfolded Inl]] assms by simp
      next
        case res: (Inr res)
        have "model_calls st' = Suc (model_calls st) \<and> tool_calls st' = Suc (tool_calls st)"
          using loop_body_tool_ok[where llm=llm and st=st, OF t Inr False r[unfolded res]] assms by auto
        then show ?thesis using t Inr ta r[unfolded res] by blast
      qed
    qed
  qed
qed

lemma passes_counts:
  "model_calls (pass_state (passes rr llm n st)) \<le> model_calls st + n
   \<and> tool_calls (pass_state (passes rr llm n st)) \<le> tool_calls st + n"
proof (induction n arbitrary: st)
  case 0
  then show ?case by simp
next
  case (Suc n)
  show ?case
  proof (cases "loop_body rr llm st")
    case (Finished r st')
    then show ?thesis using loop_body_counts[of rr llm st] by simp
  next
    case (Next st')
    then show ?thesis using loop_body_counts[of rr llm st] Suc[of st'] by simp
  qed
qed

lemma passes_Next:
  "passes rr llm n st = Next st' \<Longrightarrow>
   model_calls st' = model_calls st + n \<and> tool_calls st' = tool_calls st + n"
proof (induction n arbitrary: st)
  case 0
  then show ?case by simp
next
  case (Suc n)
  then obtain st1 where b: "loop_body rr llm st = Next st1" and p: "passes rr llm n st1 = Next st'"
    by (cases "loop_body rr llm st") auto
  from loop_body_Next[OF b] Suc.IH[OF p] show ?case by auto
qed

lemma runTool_error_kinds:
  assumes "runTool rr name args w = (Inl e, w')"
  shows "kind_of e = UnknownToolError \<or> kind_of e = InvalidArgumentsError
         \<or> kind_of e = PathEscapeError \<or> kind_of e = FilesystemError"
proof -
  from runTool_stages[of name rr args w] show ?thesis
  proof (elim disjE conjE exE)
    fix u assume "name \<in> TOOL_NAMES" "validateArgs name args = Inr u"
    from runTool_valid_log[OF this assms] show ?thesis by auto
  next
    fix e' assume "validateArgs name args = Inl e'" "runTool rr name args w = (Inl e', w)"
    then show ?thesis using assms validateArgs_kind by auto
  qed (use assms in auto)
qed

lemma runLiteAgent_valid:
  assumes "\<not> blank_or_not_string input" "\<not> env_missing (OPENAI_API_KEY env)"
    and "\<not> env_missing (env_or (OPENAI_LITE_MODEL env) (OPENAI_MODEL env))"
  shows "runLiteAgent rr env llm w input inc mi =
     (case agent_loop rr llm (case mi of None \<Rightarrow> DEFAULT_MAX_ITERATIONS | Some n \<Rightarrow> n) 0
             (initial_state w
                [\<lparr>msg_role = System, msg_content = buildSystemPrompt getToolDefinitions\<rparr>,
                 \<lparr>msg_role = User, msg_content = js_string input\<rparr>]) of
        (Inl e, st) \<Rightarrow> (Inl e, st)
      | (Inr out, st) \<Rightarrow>
          (Inr \<lparr>result_output = out,
                result_steps = (if (case inc of None \<Rightarrow> False | Some v \<Rightarrow> js_truthy v)
                                then Some (steps st) else None)\<rparr>, st))"
  using assms by (simp add: runLiteAgent_def)

lemma runLiteAgent_state:
  "snd (runLiteAgent rr env llm w input inc mi) = initial_state w []
   \<or> snd (runLiteAgent rr env llm w input inc mi)
       = snd (agent_loop rr llm (case mi of None \<Rightarrow> DEFAULT_MAX_ITERATIONS | Some n \<Rightarrow> n) 0
               (initial_state w
                  [\<lparr>msg_role = System, msg_content = buildSystemPrompt getToolDefinitions\<rparr>,
                   \<lparr>msg_role = User, msg_content = js_string input\<rparr>]))"
  by (auto simp: runLiteAgent_def split: prod.splits sum.splits)

lemma agent_loop_calls:
  "model_calls (snd (agent_loop rr llm m 0 st)) \<le> model_calls st + nat m
   \<and> tool_calls (snd (agent_loop rr llm m 0 st)) \<le> tool_calls st + nat m"
  using passes_counts[of rr llm "nat m" st]
  by (cases "passes rr llm (nat m) st") (simp_all add: agent_loop_passes)

text \<open>
  Claim C10. With a valid input and configuration and a cap that is zero or negative,
  \<open>runLiteAgent\<close> fails with the max-iterations error at once: no call to the model, no
  tool execution, no step, and the file system as it was.
\<close>

theorem nonpositive_cap:
  "n \<le> 0 \<and> \<not> blank_or_not_string input \<and> \<not> env_missing (OPENAI_API_KEY env)
   \<and> \<not> env_missing (env_or (OPENAI_LITE_MODEL env) (OPENAI_MODEL env))
   \<longrightarrow> fst (runLiteAgent rr env llm w input inc (Some n)) = Inl ExceededMaxIterations
       \<and> kind_of ExceededMaxIterations = MaxIterationsExceeded
       \<and> model_calls (snd (runLiteAgent rr env llm w input inc (Some n))) = 0
       \<and> tool_calls (snd (runLiteAgent rr env llm w input inc (Some n))) = 0
       \<and> disk (snd (runLiteAgent rr env llm w input inc (Some n))) = w
       \<and> steps (snd (runLiteAgent rr env llm w input inc (Some n))) = []"
proof (intro impI)
  assume a: "n \<le> 0 \<and> \<not> blank_or_not_string input \<and> \<not> env_missing (OPENAI_API_KEY env)
   \<and> \<not> env_missing (env_or (OPENAI_LITE_MODEL env) (OPENAI_MODEL env))"
  then have "\<not> (0::int) < n" by simp
  then have "runLiteAgent rr env llm w input inc (Some n)
     = (Inl ExceededMaxIterations,
        initial_state w
          [\<lparr>msg_role = System, msg_content = buildSystemPrompt getToolDefinitions\<rparr>,
           \<lparr>msg_role = User, msg_content = js_string input\<rparr>])"
    using a by (simp add: runLiteAgent_valid agent_loop_stop)
  then show "fst (runLiteAgent rr env llm w input inc (Some n)) = Inl ExceededMaxIterations
       \<and> kind_of ExceededMaxIterations = MaxIterationsExceeded
       \<and> model_calls (snd (runLiteAgent rr env llm w input inc (Some n))) = 0
       \<and> tool_calls (snd (runLiteAgent rr env llm w input inc (Some n))) = 0
       \<and> disk (snd (runLiteAgent rr env llm w input inc (Some n))) = w
       \<and> steps (snd (runLiteAgent rr env llm w input inc (Some n))) = []"
    by (simp add: initial_state_def)
qed

theorem nonpositive_cap_witness:
  \<open>fst (runLiteAgent ''/srv/app''
          \<lparr>OPENAI_API_KEY = Some ''sk-test'', OPENAI_LITE_MODEL = None,
            OPENAI_MODEL = Some ''m'', OPENAI_LITE_BASE_URL = None\<rparr>
          (\<lambda>n ms. Reply (Some ''{"type":"final","content":"Done."}''))
          \<lparr>files = [], oplog = []\<rparr> (Some (JString ''Say done'')) None (Some (- 3)))
     = Inl ExceededMaxIterations
   \<and> model_calls (snd (runLiteAgent ''/srv/app''
          \<lparr>OPENAI_API_KEY = Some ''sk-test'', OPENAI_LITE_MODEL = None,
            OPENAI_MODEL = Some ''m'', OPENAI_LITE_BASE_URL = None\<rparr>
          (\<lambda>n ms. Reply (Some ''{"type":"final","content":"Done."}''))
          \<lparr>files = [], oplog = []\<rparr> (Some (JString ''Say done'')) None (Some (- 3)))) = 0
   \<and> tool_calls (snd (runLiteAgent ''/srv/app''
          \<lparr>OPENAI_API_KEY = Some ''sk-test'', OPENAI_LITE_MODEL = None,
            OPENAI_MODEL = Some ''m'', OPENAI_LITE_BASE_URL = None\<rparr>
          (\<lambda>n ms. Reply (Some ''{"type":"final","content":"Done."}''))
          \<lparr>files = [], oplog = []\<rparr> (Some (JString ''Say done'')) None (Some (- 3)))) = 0\<close>
proof -
  let ?env = "\<lparr>OPENAI_API_KEY = Some ''sk-test'', OPENAI_LITE_MODEL = None,
            OPENAI_MODEL = Some ''m'', OPENAI_LITE_BASE_URL = None\<rparr>"
  have h: "(- 3::int) \<le> 0 \<and> \<not> blank_or_not_string (Some (JString ''Say done''))
        \<and> \<not> env_missing (OPENAI_API_KEY ?env)
        \<and> \<not> env_missing (env_or (OPENAI_LITE_MODEL ?env) (OPENAI_MODEL ?env))"
    by code_simp
  from nonpositive_cap[rule_format, OF h] show ?thesis by blast
qed

text \<open>
  Claim C5. When, in an iteration of the loop, the model's reply parses to a tool action
  and \<open>runTool\<close> fails on it, the loop ends there with that error, which is an unknown
  tool, invalid arguments, a path escape or a file system error. No result is returned
  (the outcome is the error), the message sequence has gained the assistant message only
  (no observation), no step has been recorded, and exactly one call to the model and one
  to \<open>runTool\<close> have been made since the iteration began.
\<close>

theorem tool_failure_is_fatal:
  "llm (model_calls st) (messages st) = Reply (Some raw) \<and> raw \<noteq> []
   \<and> parseModelOutput raw = Inr a \<and> get_prop a ''type'' = Some (JString ''tool'')
   \<and> runTool rr (js_string (get_prop a ''name'')) (args_or_empty (get_prop a ''args'')) (disk st)
       = (Inl e, w')
   \<and> i < m
   \<longrightarrow> fst (agent_loop rr llm m i st) = Inl e
       \<and> (kind_of e = UnknownToolError \<or> kind_of e = InvalidArgumentsError
           \<or> kind_of e = PathEscapeError \<or> kind_of e = FilesystemError)
       \<and> messages (snd (agent_loop rr llm m i st))
           = messages st @ [\<lparr>msg_role = Assistant, msg_content = raw\<rparr>]
       \<and> steps (snd (agent_loop rr llm m i st)) = steps st
       \<and> model_calls (snd (agent_loop rr llm m i st)) = Suc (model_calls st)
       \<and> tool_calls (snd (agent_loop rr llm m i st)) = Suc (tool_calls st)
       \<and> disk (snd (agent_loop rr llm m i st)) = w'"
proof (intro impI)
  assume a: "llm (model_calls st) (messages st) = Reply (Some raw) \<and> raw \<noteq> []
   \<and> parseModelOutput raw = Inr a \<and> get_prop a ''type'' = Some (JString ''tool'')
   \<and> runTool rr (js_string (get_prop a ''name'')) (args_or_empty (get_prop a ''args'')) (disk st)
       = (Inl e, w')
   \<and> i < m"
  then have t: "llm (model_calls st) (messages st) = Reply (Some raw)" "raw \<noteq> []"
    and p: "parseModelOutput raw = Inr a"
    and nf: "get_prop a ''type'' \<noteq> Some (JString ''final'')"
    and r: "runTool rr (js_string (get_prop a ''name'')) (args_or_empty (get_prop a ''args'')) (disk st)
            = (Inl e, w')"
    and lt: "i < m" by simp_all
  have "agent_loop rr llm m i st =
     (Inl e, st\<lparr>model_calls := Suc (model_calls st),
                messages := messages st @ [\<lparr>msg_role = Assistant, msg_content = raw\<rparr>],
                disk := w', tool_calls := Suc (tool_calls st)\<rparr>)"
    using loop_body_tool_error[where llm=llm and st=st, OF t p nf r] lt
    by (simp add: agent_loop_step)
  then show "fst (agent_loop rr llm m i st) = Inl e
       \<and> (kind_of e = UnknownToolError \<or> kind_of e = InvalidArgumentsError
           \<or> kind_of e = PathEscapeError \<or> kind_of e = FilesystemError)
       \<and> messages (snd (agent_loop rr llm m i st))
           = messages st @ [\<lparr>msg_role = Assistant, msg_content = raw\<rparr>]
       \<and> steps (snd (agent_loop rr llm m i st)) = steps st
       \<and> model_calls (snd (agent_loop rr llm m i st)) = Suc (model_calls st)
       \<and> tool_calls (snd (agent_loop rr llm m i st)) = Suc (tool_calls st)
       \<and> disk (snd (agent_loop rr llm m i st)) = w'"
    using runTool_error_kinds[OF r] by simp
qed

theorem tool_failure_is_fatal_witness:
  \<open>fst (agent_loop ''/srv/app''
          (\<lambda>n ms. Reply (Some ''{"type":"tool","name":"read_file","args":{"filePath":"../secret"}}''))
          6 0 (initial_state \<lparr>files = [], oplog = []\<rparr> [\<lparr>msg_role = User, msg_content = ''go''\<rparr>]))
     = Inl (PathEscapesSandbox ''../secret'')
   \<and> messages (snd (agent_loop ''/srv/app''
          (\<lambda>n ms. Reply (Some ''{"type":"tool","name":"read_file","args":{"filePath":"../secret"}}''))
          6 0 (initial_state \<lparr>files = [], oplog = []\<rparr> [\<lparr>msg_role = User, msg_content = ''go''\<rparr>])))
     = [\<lparr>msg_role = User, msg_content = ''go''\<rparr>,
        \<lparr>msg_role = Assistant,
          msg_content = ''{"type":"tool","name":"read_file","args":{"filePath":"../secret"}}''\<rparr>]
   \<and> steps (snd (agent_loop ''/srv/app''
          (\<lambda>n ms. Reply (Some ''{"type":"tool","name":"read_file","args":{"filePath":"../secret"}}''))
          6 0 (initial_state \<lparr>files = [], oplog = []\<rparr> [\<lparr>msg_role = User, msg_content = ''go''\<rparr>])))
     = []
   \<and> model_calls (snd (agent_loop ''/srv/app''
          (\<lambda>n ms. Reply (Some ''{"type":"tool","name":"read_file","args":{"filePath":"../secret"}}''))
          6 0 (initial_state \<lparr>files = [], oplog = []\<rparr> [\<lparr>msg_role = User, msg_content = ''go''\<rparr>])))
     = 1\<close>
proof -
  let ?raw = \<open>''{"type":"tool","name":"read_file","args":{"filePath":"../secret"}}''\<close>
  let ?llm = "\<lambda>(n::nat) (ms::message list). Reply (Some ?raw)"
  let ?st = "initial_state \<lparr>files = [], oplog = []\<rparr> [\<lparr>msg_role = User, msg_content = ''go''\<rparr>]"
  let ?a = "JObject [(''type'', JString ''tool''), (''name'', JString ''read_file''),
                     (''args'', JObject [(''filePath'', JString ''../secret'')])]"
  let ?w' = "\<lparr>files = [([''srv''], Dir), ([''srv'', ''app''], Dir),
                       ([''srv'', ''app'', ''sandbox-lite''], Dir)],
               oplog = [OpMkdir ''/srv/app/sandbox-lite'']\<rparr>"
  have p: "parseModelOutput ?raw = Inr ?a" by code_simp
  have r: "runTool ''/srv/app'' (js_string (get_prop ?a ''name''))
             (args_or_empty (get_prop ?a ''args'')) (disk ?st)
           = (Inl (PathEscapesSandbox ''../secret''), ?w')" by code_simp
  have h: "?llm (model_calls ?st) (messages ?st) = Reply (Some ?raw) \<and> ?raw \<noteq> []
     \<and> parseModelOutput ?raw = Inr ?a \<and> get_prop ?a ''type'' = Some (JString ''tool'')
     \<and> runTool ''/srv/app'' (js_string (get_prop ?a ''name''))
             (args_or_empty (get_prop ?a ''args'')) (disk ?st)
           = (Inl (PathEscapesSandbox ''../secret''), ?w')
     \<and> (0::int) < 6"
    using p r by simp
  from tool_failure_is_fatal[where llm = ?llm and st = ?st and i = 0 and m = 6, rule_format, OF h]
  show ?thesis by (simp add: initial_state_def)
qed

text \<open>
  Claim C4 (as the code has it). In an iteration, the reply of the model is parsed first
  and appended to the message sequence afterwards. When parsing fails, the iteration ends
  with the parse error and the message sequence is as it was before the call: it does not
  hold the offending reply. When parsing succeeds, the iteration's message sequence starts
  with the previous one followed by the assistant message carrying the reply verbatim.
\<close>

theorem assistant_message_after_parse:
  "llm (model_calls st) (messages st) = Reply (Some raw) \<and> raw \<noteq> []
   \<longrightarrow> (\<forall>e. parseModelOutput raw = Inl e
          \<longrightarrow> loop_body rr llm st = Finished (Inl e) (st\<lparr>model_calls := Suc (model_calls st)\<rparr>)
              \<and> messages (pass_state (loop_body rr llm st)) = messages st)
       \<and> (\<forall>a. parseModelOutput raw = Inr a
          \<longrightarrow> prefix (messages st @ [\<lparr>msg_role = Assistant, msg_content = raw\<rparr>])
                     (messages (pass_state (loop_body rr llm st))))"
proof (intro impI conjI allI)
  fix e
  assume t: "llm (model_calls st) (messages st) = Reply (Some raw) \<and> raw \<noteq> []"
    and p: "parseModelOutput raw = Inl e"
  have b: "loop_body rr llm st = Finished (Inl e) (st\<lparr>model_calls := Suc (model_calls st)\<rparr>)"
    using loop_body_parse_error[where llm=llm and st=st, OF _ _ p] t by simp
  show "loop_body rr llm st = Finished (Inl e) (st\<lparr>model_calls := Suc (model_calls st)\<rparr>)"
    by (rule b)
  show "messages (pass_state (loop_body rr llm st)) = messages st" by (simp add: b)
next
  fix a
  assume t: "llm (model_calls st) (messages st) = Reply (Some raw) \<and> raw \<noteq> []"
    and p: "parseModelOutput raw = Inr a"
  from t have t': "llm (model_calls st) (messages st) = Reply (Some raw)" "raw \<noteq> []" by simp_all
  show "prefix (messages st @ [\<lparr>msg_role = Assistant, msg_content = raw\<rparr>])
          (messages (pass_state (loop_body rr llm st)))"
  proof (cases "get_prop a ''type'' = Some (JString ''final'')")
    case True
    then show ?thesis using loop_body_final[where llm=llm and st=st, OF t' p True] by simp
  next
    case False
    obtain r w' where
      r: "runTool rr (js_string (get_prop a ''name'')) (args_or_empty (get_prop a ''args'')) (disk st)
          = (r, w')" by fastforce
    show ?thesis
    proof (cases r)
      case (Inl e)
      then show ?thesis using loop_body_tool_error[where llm=llm and st=st, OF t' p False r[unfolded Inl]]
        by simp
    next
      case (Inr res)
      then show ?thesis using loop_body_tool_ok[where llm=llm and st=st, OF t' p False r[unfolded Inr]]
        by simp
    qed
  qed
qed

theorem assistant_message_after_parse_witness:
  \<open>loop_body ''/srv/app'' (\<lambda>n ms. Reply (Some ''I will list the files.''))
      (initial_state \<lparr>files = [], oplog = []\<rparr> [\<lparr>msg_role = User, msg_content = ''go''\<rparr>])
     = Finished (Inl NotJSON)
         ((initial_state \<lparr>files = [], oplog = []\<rparr> [\<lparr>msg_role = User, msg_content = ''go''\<rparr>])
            \<lparr>model_calls := Suc 0\<rparr>)
   \<and> prefix ([\<lparr>msg_role = User, msg_content = ''go''\<rparr>]
              @ [\<lparr>msg_role = Assistant, msg_content = ''{"type":"final","content":"Done."}''\<rparr>])
        (messages (pass_state
           (loop_body ''/srv/app'' (\<lambda>n ms. Reply (Some ''{"type":"final","content":"Done."}''))
              (initial_state \<lparr>files = [], oplog = []\<rparr> [\<lparr>msg_role = User, msg_content = ''go''\<rparr>]))))\<close>
proof -
  let ?st = "initial_state \<lparr>files = [], oplog = []\<rparr> [\<lparr>msg_role = User, msg_content = ''go''\<rparr>]"
  let ?bad = "''I will list the files.''"
  let ?good = \<open>''{"type":"final","content":"Done."}''\<close>
  have p1: "parseModelOutput ?bad = Inl NotJSON" by code_simp
  have p2: "parseModelOutput ?good
            = Inr (JObject [(''type'', JString ''final''), (''content'', JString ''Done.'')])"
    by code_simp
  have h1: "(\<lambda>(n::nat) (ms::message list). Reply (Some ?bad)) (model_calls ?st) (messages ?st)
              = Reply (Some ?bad) \<and> ?bad \<noteq> []" by simp
  have h2: "(\<lambda>(n::nat) (ms::message list). Reply (Some ?good)) (model_calls ?st) (messages ?st)
              = Reply (Some ?good) \<and> ?good \<noteq> []" by simp
  note A = assistant_message_after_parse[where st = ?st and rr = "''/srv/app''", rule_format]
  have 1: "loop_body ''/srv/app'' (\<lambda>n ms. Reply (Some ?bad)) ?st
           = Finished (Inl NotJSON) (?st\<lparr>model_calls := Suc (model_calls ?st)\<rparr>)"
    using A[where llm = "\<lambda>n ms. Reply (Some ?bad)" and raw = ?bad, THEN conjunct1, rule_format,
            OF h1 p1] by blast
  have 2: "prefix (messages ?st @ [\<lparr>msg_role = Assistant, msg_content = ?good\<rparr>])
        (messages (pass_state (loop_body ''/srv/app'' (\<lambda>n ms. Reply (Some ?good)) ?st)))"
    using A[where llm = "\<lambda>n ms. Reply (Some ?good)" and raw = ?good, THEN conjunct2, rule_format,
            OF h2 p2] .
  have m: "messages ?st = [\<lparr>msg_role = User, msg_content = ''go''\<rparr>]" "model_calls ?st = 0"
    by (simp_all add: initial_state_def)
  from 1 2 show ?thesis unfolding m by (simp only: simp_thms)
qed

text \<open>The claim as stated has the reply appended before it is parsed. A model that answers
  in prose makes the invocation fail with the messages at the point of failure being the
  system prompt and the user input only.\<close>

theorem assistant_message_counterexample:
  \<open>fst (runLiteAgent ''/srv/app''
          \<lparr>OPENAI_API_KEY = Some ''sk-test'', OPENAI_LITE_MODEL = None,
            OPENAI_MODEL = Some ''m'', OPENAI_LITE_BASE_URL = None\<rparr>
          (\<lambda>n ms. Reply (Some ''I will list the files.''))
          \<lparr>files = [], oplog = []\<rparr> (Some (JString ''List files'')) None None)
     = Inl NotJSON
   \<and> map msg_role (messages (snd (runLiteAgent ''/srv/app''
          \<lparr>OPENAI_API_KEY = Some ''sk-test'', OPENAI_LITE_MODEL = None,
            OPENAI_MODEL = Some ''m'', OPENAI_LITE_BASE_URL = None\<rparr>
          (\<lambda>n ms. Reply (Some ''I will list the files.''))
          \<lparr>files = [], oplog = []\<rparr> (Some (JString ''List files'')) None None)))
     = [System, User]
   \<and> \<lparr>msg_role = Assistant, msg_content = ''I will list the files.''\<rparr>
       \<notin> set (messages (snd (runLiteAgent ''/srv/app''
          \<lparr>OPENAI_API_KEY = Some ''sk-test'', OPENAI_LITE_MODEL = None,
            OPENAI_MODEL = Some ''m'', OPENAI_LITE_BASE_URL = None\<rparr>
          (\<lambda>n ms. Reply (Some ''I will list the files.''))
          \<lparr>files = [], oplog = []\<rparr> (Some (JString ''List files'')) None None)))\<close>
  by code_simp

lemma ensureSandbox_again:
  assumes "dirs_exist (files w) [] (path_segments (SANDBOX_DIR rr))"
  shows "ensureSandbox rr w = (Inr (), w\<lparr>oplog := oplog w @ [OpMkdir (SANDBOX_DIR rr)]\<rparr>)"
proof -
  have "mkdir_walk (files w) [] (path_segments (SANDBOX_DIR rr)) = (None, files w)"
    using assms by (rule mkdir_walk_existing)
  then show ?thesis by (simp add: ensureSandbox_def fs_mkdir_def)
qed

lemma list_files_pass:
  assumes l: \<open>\<forall>n ms. llm n ms = Reply (Some ''{"type":"tool","name":"list_files","args":{}}'')\<close>
    and e: "ensureSandbox rr (disk st) = (Inr u, w1)"
  shows "\<exists>st'. loop_body rr llm st = Next st'
             \<and> dirs_exist (files (disk st')) [] (path_segments (SANDBOX_DIR rr))"
proof -
  let ?raw = \<open>''{"type":"tool","name":"list_files","args":{}}''\<close>
  let ?a = "JObject [(''type'', JString ''tool''), (''name'', JString ''list_files''),
                     (''args'', JObject [])]"
  have t: "llm (model_calls st) (messages st) = Reply (Some ?raw)" "?raw \<noteq> []"
    using l by simp_all
  have p: "parseModelOutput ?raw = Inr ?a" by code_simp
  have nf: "get_prop ?a ''type'' \<noteq> Some (JString ''final'')" by simp
  obtain res where
    r: "runTool rr ''list_files'' (JObject []) (disk st)
        = (Inr res, w1\<lparr>oplog := oplog w1 @ [OpReaddir (SANDBOX_DIR rr)]\<rparr>)"
    using list_files_result[of rr "disk st", THEN conjunct2, THEN conjunct1, rule_format, OF e]
    by blast
  have r': "runTool rr (js_string (get_prop ?a ''name'')) (args_or_empty (get_prop ?a ''args''))
              (disk st) = (Inr res, w1\<lparr>oplog := oplog w1 @ [OpReaddir (SANDBOX_DIR rr)]\<rparr>)"
    using r by simp
  have d: "dirs_exist (files w1) [] (path_segments (SANDBOX_DIR rr))"
    using ensureSandbox_dir(4)[OF e] .
  show ?thesis
    using loop_body_tool_ok[where llm=llm and st=st, OF t p nf r'] d by simp
qed

lemma list_files_passes:
  assumes l: \<open>\<forall>n ms. llm n ms = Reply (Some ''{"type":"tool","name":"list_files","args":{}}'')\<close>
  shows "ensureSandbox rr (disk st) = (Inr u, w1) \<Longrightarrow> \<exists>st'. passes rr llm n st = Next st'"
proof (induction n arbitrary: st u w1)
  case 0
  then show ?case by simp
next
  case (Suc n)
  from list_files_pass[OF l Suc.prems] obtain st1 where
    b: "loop_body rr llm st = Next st1"
    and d: "dirs_exist (files (disk st1)) [] (path_segments (SANDBOX_DIR rr))" by blast
  from Suc.IH[OF ensureSandbox_again[OF d]] b show ?case by simp
qed

text \<open>
  Claim C2 (as the code has it). Whatever the adapter replies, \<open>runLiteAgent\<close> returns,
  with a result or with an error, after at most as many calls to the model, and to
  \<open>runTool\<close>, as the cap allows (\<open>nat\<close> of the cap: none when it is negative). When every
  one of the first cap passes through the loop body falls through to the next, the
  invocation fails with the max-iterations error after exactly cap calls to the model. A
  pass falls through exactly when the model replies with a tool action and \<open>runTool\<close>
  succeeds on it. In particular a model that answers every turn with the tool action
  \<^verbatim>\<open>list_files\<close> without arguments, on a file system where the sandbox root can be created,
  fails with the max-iterations error after exactly cap calls.
\<close>

theorem loop_terminates_within_cap:
  \<open>model_calls (snd (runLiteAgent rr env llm w input inc mi))
     \<le> nat (case mi of None \<Rightarrow> DEFAULT_MAX_ITERATIONS | Some n \<Rightarrow> n)
   \<and> tool_calls (snd (runLiteAgent rr env llm w input inc mi))
     \<le> nat (case mi of None \<Rightarrow> DEFAULT_MAX_ITERATIONS | Some n \<Rightarrow> n)
   \<and> ((\<exists>res. fst (runLiteAgent rr env llm w input inc mi) = Inr res)
       \<or> (\<exists>e. fst (runLiteAgent rr env llm w input inc mi) = Inl e))
   \<and> (\<forall>st'. \<not> blank_or_not_string input \<and> \<not> env_missing (OPENAI_API_KEY env)
          \<and> \<not> env_missing (env_or (OPENAI_LITE_MODEL env) (OPENAI_MODEL env))
          \<and> passes rr llm (nat (case mi of None \<Rightarrow> DEFAULT_MAX_ITERATIONS | Some n \<Rightarrow> n))
               (initial_state w
                  [\<lparr>msg_role = System, msg_content = buildSystemPrompt getToolDefinitions\<rparr>,
                   \<lparr>msg_role = User, msg_content = js_string input\<rparr>]) = Next st'
        \<longrightarrow> runLiteAgent rr env llm w input inc mi = (Inl ExceededMaxIterations, st')
            \<and> kind_of ExceededMaxIterations = MaxIterationsExceeded
            \<and> model_calls st' = nat (case mi of None \<Rightarrow> DEFAULT_MAX_ITERATIONS | Some n \<Rightarrow> n)
            \<and> tool_calls st' = nat (case mi of None \<Rightarrow> DEFAULT_MAX_ITERATIONS | Some n \<Rightarrow> n))
   \<and> (\<forall>st st'. loop_body rr llm st = Next st'
        \<longrightarrow> (\<exists>raw a res w'.
               llm (model_calls st) (messages st) = Reply (Some raw) \<and> raw \<noteq> []
               \<and> parseModelOutput raw = Inr a \<and> is_tool_action a
               \<and> runTool rr (js_string (get_prop a ''name'')) (args_or_empty (get_prop a ''args''))
                    (disk st) = (Inr res, w')))
   \<and> (\<forall>st raw a res w'.
          llm (model_calls st) (messages st) = Reply (Some raw) \<and> raw \<noteq> []
          \<and> parseModelOutput raw = Inr a \<and> get_prop a ''type'' = Some (JString ''tool'')
          \<and> runTool rr (js_string (get_prop a ''name'')) (args_or_empty (get_prop a ''args''))
               (disk st) = (Inr res, w')
        \<longrightarrow> (\<exists>st'. loop_body rr llm st = Next st'))
   \<and> (\<forall>u w1. (\<forall>n ms. llm n ms = Reply (Some ''{"type":"tool","name":"list_files","args":{}}''))
          \<and> ensureSandbox rr w = (Inr u, w1)
          \<and> \<not> blank_or_not_string input \<and> \<not> env_missing (OPENAI_API_KEY env)
          \<and> \<not> env_missing (env_or (OPENAI_LITE_MODEL env) (OPENAI_MODEL env))
        \<longrightarrow> fst (runLiteAgent rr env llm w input inc mi) = Inl ExceededMaxIterations
            \<and> model_calls (snd (runLiteAgent rr env llm w input inc mi))
                = nat (case mi of None \<Rightarrow> DEFAULT_MAX_ITERATIONS | Some n \<Rightarrow> n))\<close>
proof -
  let ?cap = "case mi of None \<Rightarrow> DEFAULT_MAX_ITERATIONS | Some n \<Rightarrow> n"
  let ?st0 = "initial_state w
                  [\<lparr>msg_role = System, msg_content = buildSystemPrompt getToolDefinitions\<rparr>,
                   \<lparr>msg_role = User, msg_content = js_string input\<rparr>]"
  let ?run = "runLiteAgent rr env llm w input inc mi"
  have zero: "model_calls (initial_state w ms) = 0" "tool_calls (initial_state w ms) = 0" for ms
    by (simp_all add: initial_state_def)
  have bound: "model_calls (snd ?run) \<le> nat ?cap \<and> tool_calls (snd ?run) \<le> nat ?cap"
    using runLiteAgent_state[of rr env llm w input inc mi] agent_loop_calls[of rr llm ?cap ?st0]
    by (auto simp: zero)
  have outcome: "(\<exists>res. fst ?run = Inr res) \<or> (\<exists>e. fst ?run = Inl e)"
    by (cases "fst ?run") auto
  have capped: "?run = (Inl ExceededMaxIterations, st')
            \<and> kind_of ExceededMaxIterations = MaxIterationsExceeded
            \<and> model_calls st' = nat ?cap \<and> tool_calls st' = nat ?cap"
    if "\<not> blank_or_not_string input \<and> \<not> env_missing (OPENAI_API_KEY env)
          \<and> \<not> env_missing (env_or (OPENAI_LITE_MODEL env) (OPENAI_MODEL env))
          \<and> passes rr llm (nat ?cap) ?st0 = Next st'" for st'
  proof -
    from that have v: "\<not> blank_or_not_string input" "\<not> env_missing (OPENAI_API_KEY env)"
      "\<not> env_missing (env_or (OPENAI_LITE_MODEL env) (OPENAI_MODEL env))"
      and p: "passes rr llm (nat ?cap) ?st0 = Next st'" by simp_all
    have "agent_loop rr llm ?cap 0 ?st0 = (Inl ExceededMaxIterations, st')"
      using p by (simp add: agent_loop_passes)
    then have "?run = (Inl ExceededMaxIterations, st')"
      by (simp add: runLiteAgent_valid[OF v])
    then show ?thesis using passes_Next[OF p] by (simp add: zero)
  qed
  have next1: "\<exists>raw a res w'.
               llm (model_calls st) (messages st) = Reply (Some raw) \<and> raw \<noteq> []
               \<and> parseModelOutput raw = Inr a \<and> is_tool_action a
               \<and> runTool rr (js_string (get_prop a ''name'')) (args_or_empty (get_prop a ''args''))
                    (disk st) = (Inr res, w')"
    if "loop_body rr llm st = Next st'" for st st'
    using loop_body_Next[OF that] by blast
  have next2: "\<exists>st'. loop_body rr llm st = Next st'"
    if "llm (model_calls st) (messages st) = Reply (Some raw) \<and> raw \<noteq> []
          \<and> parseModelOutput raw = Inr a \<and> get_prop a ''type'' = Some (JString ''tool'')
          \<and> runTool rr (js_string (get_prop a ''name'')) (args_or_empty (get_prop a ''args''))
               (disk st) = (Inr res, w')" for st raw a res w'
  proof -
    from that have t: "llm (model_calls st) (messages st) = Reply (Some raw)" "raw \<noteq> []"
      and p: "parseModelOutput raw = Inr a"
      and nf: "get_prop a ''type'' \<noteq> Some (JString ''final'')"
      and r: "runTool rr (js_string (get_prop a ''name'')) (args_or_empty (get_prop a ''args''))
               (disk st) = (Inr res, w')" by simp_all
    from loop_body_tool_ok[where llm=llm and st=st, OF t p nf r] show ?thesis by blast
  qed
  have always: "fst ?run = Inl ExceededMaxIterations \<and> model_calls (snd ?run) = nat ?cap"
    if \<open>(\<forall>n ms. llm n ms = Reply (Some ''{"type":"tool","name":"list_files","args":{}}''))
          \<and> ensureSandbox rr w = (Inr u, w1)
          \<and> \<not> blank_or_not_string input \<and> \<not> env_missing (OPENAI_API_KEY env)
          \<and> \<not> env_missing (env_or (OPENAI_LITE_MODEL env) (OPENAI_MODEL env))\<close> for u w1
  proof -
    from that have l: \<open>\<forall>n ms. llm n ms = Reply (Some ''{"type":"tool","name":"list_files","args":{}}'')\<close>
      and e: "ensureSandbox rr (disk ?st0) = (Inr u, w1)" by (simp_all add: initial_state_def)
    from list_files_passes[OF l e] obtain st' where "passes rr llm (nat ?cap) ?st0 = Next st'"
      by blast
    with that capped[of st'] show ?thesis by simp
  qed
  from bound outcome capped next1 next2 always show ?thesis by blast
qed

theorem loop_terminates_within_cap_witness:
  \<open>fst (runLiteAgent ''/srv/app''
          \<lparr>OPENAI_API_KEY = Some ''sk-test'', OPENAI_LITE_MODEL = None,
            OPENAI_MODEL = Some ''m'', OPENAI_LITE_BASE_URL = None\<rparr>
          (\<lambda>n ms. Reply (Some ''{"type":"tool","name":"list_files","args":{}}''))
          \<lparr>files = [], oplog = []\<rparr> (Some (JString ''List files'')) None (Some 3))
     = Inl ExceededMaxIterations
   \<and> model_calls (snd (runLiteAgent ''/srv/app''
          \<lparr>OPENAI_API_KEY = Some ''sk-test'', OPENAI_LITE_MODEL = None,
            OPENAI_MODEL = Some ''m'', OPENAI_LITE_BASE_URL = None\<rparr>
          (\<lambda>n ms. Reply (Some ''{"type":"tool","name":"list_files","args":{}}''))
          \<lparr>files = [], oplog = []\<rparr> (Some (JString ''List files'')) None (Some 3))) = 3\<close>
proof -
  let ?env = "\<lparr>OPENAI_API_KEY = Some ''sk-test'', OPENAI_LITE_MODEL = None,
            OPENAI_MODEL = Some ''m'', OPENAI_LITE_BASE_URL = None\<rparr>"
  let ?llm = \<open>\<lambda>(n::nat) (ms::message list). Reply (Some ''{"type":"tool","name":"list_files","args":{}}'')\<close>
  let ?w = "\<lparr>files = [], oplog = []\<rparr>"
  let ?input = "Some (JString ''List files'')"
  let ?st0 = "initial_state ?w
                  [\<lparr>msg_role = System, msg_content = buildSystemPrompt getToolDefinitions\<rparr>,
                   \<lparr>msg_role = User, msg_content = js_string ?input\<rparr>]"
  have v: "\<not> blank_or_not_string ?input \<and> \<not> env_missing (OPENAI_API_KEY ?env)
        \<and> \<not> env_missing (env_or (OPENAI_LITE_MODEL ?env) (OPENAI_MODEL ?env))"
    by code_simp
  have p: "passes ''/srv/app'' ?llm (nat 3) ?st0
           = Next (pass_state (passes ''/srv/app'' ?llm (nat 3) ?st0))"
    by code_simp
  have h: "\<not> blank_or_not_string ?input \<and> \<not> env_missing (OPENAI_API_KEY ?env)
        \<and> \<not> env_missing (env_or (OPENAI_LITE_MODEL ?env) (OPENAI_MODEL ?env))
        \<and> passes ''/srv/app'' ?llm (nat (case Some 3 of None \<Rightarrow> DEFAULT_MAX_ITERATIONS | Some n \<Rightarrow> n)) ?st0
           = Next (pass_state (passes ''/srv/app'' ?llm (nat 3) ?st0))"
    using v p by simp
  from loop_terminates_within_cap[where rr = "''/srv/app''" and env = ?env and llm = ?llm
         and w = ?w and input = ?input and inc = None and mi = "Some 3",
         THEN conjunct2, THEN conjunct2, THEN conjunct2, THEN conjunct1, rule_format, OF h]
  show ?thesis by simp
qed

text \<open>The claim as stated asks only that the model emit a tool action on every turn. A
  model that asks on every turn to read a file that does not exist ends the invocation
  on the first turn with the file system's error, after one call, under a cap of six.\<close>

theorem failing_tool_action_counterexample:
  \<open>fst (runLiteAgent ''/srv/app''
          \<lparr>OPENAI_API_KEY = Some ''sk-test'', OPENAI_LITE_MODEL = None,
            OPENAI_MODEL = Some ''m'', OPENAI_LITE_BASE_URL = None\<rparr>
          (\<lambda>n ms. Reply (Some ''{"type":"tool","name":"read_file","args":{"filePath":"missing.txt"}}''))
          \<lparr>files = [], oplog = []\<rparr> (Some (JString ''Read missing.txt'')) None (Some 6))
     = Inl (FsError ENOENT)
   \<and> model_calls (snd (runLiteAgent ''/srv/app''
          \<lparr>OPENAI_API_KEY = Some ''sk-test'', OPENAI_LITE_MODEL = None,
            OPENAI_MODEL = Some ''m'', OPENAI_LITE_BASE_URL = None\<rparr>
          (\<lambda>n ms. Reply (Some ''{"type":"tool","name":"read_file","args":{"filePath":"missing.txt"}}''))
          \<lparr>files = [], oplog = []\<rparr> (Some (JString ''Read missing.txt'')) None (Some 6))) = 1\<close>
  by code_simp

end
